theory Spec2Isabelle
  imports Complex_Main
begin

section \<open>Minibatch index collection of \<open>training_generator\<close>\<close>

text \<open>
  The fairness notebook's \<open>training_generator\<close> walks cyclically over the positions of a
  shuffled permutation of the training rows. Python integers are unbounded, so positions
  and sizes are \<open>int\<close>. \<open>range(a, b)\<close> is the list \<open>a, a+1, ..., b-1\<close>, empty when
  \<open>b \<le> a\<close>.
\<close>

definition py_range :: "int \<Rightarrow> int \<Rightarrow> int list" where
  "py_range a b = [a..b - 1]"

text \<open>
  The inner \<open>while len(minibatch_indices) < minibatch_size\<close> loop. Its state is the list
  collected so far and \<open>minibatch_start_index\<close>; the result is the state on exit. The loop
  need not return for every parameter (\<open>num_rows \<le> 0 < minibatch_size\<close> appends the empty
  range forever), so not returning is the value \<open>None\<close>.
\<close>

partial_function (option) collect_indices ::
  "int \<Rightarrow> int \<Rightarrow> int list \<Rightarrow> int \<Rightarrow> (int list \<times> int) option" where
  "collect_indices minibatch_size num_rows minibatch_indices minibatch_start_index =
     (if int (length minibatch_indices) < minibatch_size then
        (let minibatch_end_index =
               minibatch_start_index + minibatch_size - int (length minibatch_indices)
         in if minibatch_end_index \<ge> num_rows then
              collect_indices minibatch_size num_rows
                (minibatch_indices @ py_range minibatch_start_index num_rows) 0
            else
              collect_indices minibatch_size num_rows
                (minibatch_indices @ py_range minibatch_start_index minibatch_end_index)
                minibatch_end_index)
      else Some (minibatch_indices, minibatch_start_index))"

text \<open>
  The inner \<open>for _ in xrange(num_iterations_per_loop)\<close> loop runs the while loop once per
  iteration, each time from an empty list and from the start index the previous run
  left. \<open>run_iterations\<close> returns the index lists in order, and the final start index.
  The number of iterations is a \<open>nat\<close>: \<open>xrange\<close> of a count below 1 runs no iteration.
\<close>

fun run_iterations :: "int \<Rightarrow> int \<Rightarrow> nat \<Rightarrow> int \<Rightarrow> (int list list \<times> int) option" where
  "run_iterations minibatch_size num_rows 0 minibatch_start_index =
     Some ([], minibatch_start_index)"
| "run_iterations minibatch_size num_rows (Suc k) minibatch_start_index =
     (case collect_indices minibatch_size num_rows [] minibatch_start_index of
        None \<Rightarrow> None
      | Some (minibatch_indices, start') \<Rightarrow>
          (case run_iterations minibatch_size num_rows k start' of
             None \<Rightarrow> None
           | Some (rest, final) \<Rightarrow> Some (minibatch_indices # rest, final)))"

text \<open>
  The outer \<open>for n in xrange(num_loops)\<close> loop runs the inner loop once per epoch and then
  yields the predictions; the start index carries over from one epoch to the next.
\<close>

fun run_loops ::
  "int \<Rightarrow> int \<Rightarrow> nat \<Rightarrow> nat \<Rightarrow> int \<Rightarrow> (int list list list \<times> int) option" where
  "run_loops minibatch_size num_rows num_iterations_per_loop 0 minibatch_start_index =
     Some ([], minibatch_start_index)"
| "run_loops minibatch_size num_rows num_iterations_per_loop (Suc n) minibatch_start_index =
     (case run_iterations minibatch_size num_rows num_iterations_per_loop
             minibatch_start_index of
        None \<Rightarrow> None
      | Some (minibatches, start') \<Rightarrow>
          (case run_loops minibatch_size num_rows num_iterations_per_loop n start' of
             None \<Rightarrow> None
           | Some (rest, final) \<Rightarrow> Some (minibatches # rest, final)))"

text \<open>
  \<open>training_generator\<close> clamps the requested size with \<open>min(minibatch_size, num_rows)\<close>
  and starts at index 0. The result lists, per epoch and per iteration, the
  \<open>minibatch_indices\<close> that the loop collected.
\<close>

definition training_generator_indices ::
  "int \<Rightarrow> int \<Rightarrow> nat \<Rightarrow> nat \<Rightarrow> (int list list list \<times> int) option" where
  "training_generator_indices requested num_rows num_iterations_per_loop num_loops =
     (let minibatch_size = min requested num_rows
      in run_loops minibatch_size num_rows num_iterations_per_loop num_loops 0)"

section \<open>Metric functions of the two notebooks\<close>

text \<open>
  Floating-point numbers are modelled by \<open>real\<close>: rounding and signed zeros are not
  modelled, comparisons and the sign conventions are. Python's \<open>float(a) / float(b)\<close>
  raises \<open>ZeroDivisionError\<close> when \<open>b\<close> is zero; a shape mismatch in an elementwise
  product raises \<open>ValueError\<close>.
\<close>

datatype error = ZeroDivisionError | ValueError

text \<open>
  numpy and TensorFlow division follows IEEE 754 instead: dividing by zero raises nothing
  and yields an infinity, or NaN for \<open>0 / 0\<close>.
\<close>

datatype float_value = Finite real | PosInf | NegInf | NaN

definition true_divide :: "real \<Rightarrow> real \<Rightarrow> float_value" where
  "true_divide a b =
     (if b \<noteq> 0 then Finite (a / b)
      else if a > 0 then PosInf
      else if a < 0 then NegInf
      else NaN)"

text \<open>\<open>bound - x\<close> for a finite \<open>bound\<close> and an IEEE value \<open>x\<close>.\<close>

fun subtract_from :: "real \<Rightarrow> float_value \<Rightarrow> float_value" where
  "subtract_from bound (Finite x) = Finite (bound - x)"
| "subtract_from bound PosInf = NegInf"
| "subtract_from bound NegInf = PosInf"
| "subtract_from bound NaN = NaN"

definition py_float_div :: "real \<Rightarrow> real \<Rightarrow> error + real" where
  "py_float_div a b = (if b = 0 then Inl ZeroDivisionError else Inr (a / b))"

text \<open>\<open>astype(np.float32)\<close> and \<open>tf.to_float\<close> of a boolean.\<close>

definition to_float :: "bool \<Rightarrow> real" where
  "to_float b = (if b then 1 else 0)"

text \<open>
  The elementwise product of two columns (arrays of shape \<open>(n,)\<close> or \<open>(n, 1)\<close>), with
  numpy's broadcasting: equal lengths multiply position by position, a column of length 1
  is stretched, anything else raises.
\<close>

definition multiply :: "real list \<Rightarrow> real list \<Rightarrow> error + real list" where
  "multiply xs ys =
     (if length xs = length ys then Inr (map2 (*) xs ys)
      else if length xs = 1 then Inr (map (\<lambda>y. hd xs * y) ys)
      else if length ys = 1 then Inr (map (\<lambda>x. x * hd ys) xs)
      else Inl ValueError)"

subsection \<open>Fairness notebook\<close>

text \<open>
  \<open>error_rate(predictions, labels)\<close>: both arguments are single-column frames. The
  numerator counts the rows whose signed label times prediction is \<open>\<le> 0\<close>; the
  denominator is \<open>predictions.shape[0]\<close>.
\<close>

definition signed_labels_of :: "real list \<Rightarrow> real list" where
  "signed_labels_of labels = map (\<lambda>l. to_float (l > 0) - to_float (l \<le> 0)) labels"

definition error_rate :: "real list \<Rightarrow> real list \<Rightarrow> error + real" where
  "error_rate predictions labels =
     (let signed_labels = signed_labels_of labels in
      case multiply signed_labels predictions of
        Inl e \<Rightarrow> Inl e
      | Inr products \<Rightarrow>
          (let numerator = length (filter (\<lambda>x. x \<le> 0) products);
               denominator = length predictions
           in py_float_div (real numerator) (real denominator)))"

definition positive_prediction_rate :: "real list \<Rightarrow> real list \<Rightarrow> error + real" where
  "positive_prediction_rate predictions subset' =
     (case multiply (map (\<lambda>p. to_float (p > 0)) predictions)
                    (map (\<lambda>s. to_float (s > 0)) subset') of
        Inl e \<Rightarrow> Inl e
      | Inr products \<Rightarrow>
          (let numerator = sum_list products;
               denominator = length (filter (\<lambda>s. s > 0) subset')
           in py_float_div numerator (real denominator)))"

text \<open>
  A dataframe is the list of its rows; a row holds the \<open>predictions\<close> column, the label
  column (\<open>LABEL_COLUMN\<close>) and the protected-attribute columns, looked up by name.
\<close>

record row =
  col_predictions :: real
  col_label :: real
  col_protected :: "string \<Rightarrow> real"

definition PROTECTED_COLUMNS :: "string list" where
  "PROTECTED_COLUMNS = [''gender_Female'', ''gender_Male'', ''race_White'', ''race_Black'']"

definition tpr :: "row list \<Rightarrow> error + real" where
  "tpr df =
     (let fp = length (filter (\<lambda>r. col_predictions r \<ge> 0.0 \<and> col_label r > 0.5) df);
          ln = length (filter (\<lambda>r. col_label r > 0.5) df)
      in py_float_div (real fp) (real ln))"

text \<open>A list comprehension whose elements may raise: the first error wins.\<close>

fun sequence_results :: "(error + 'a) list \<Rightarrow> error + 'a list" where
  "sequence_results [] = Inr []"
| "sequence_results (x # xs) =
     (case x of
        Inl e \<Rightarrow> Inl e
      | Inr v \<Rightarrow> (case sequence_results xs of Inl e \<Rightarrow> Inl e | Inr vs \<Rightarrow> Inr (v # vs)))"

definition protected_subset :: "row list \<Rightarrow> string \<Rightarrow> row list" where
  "protected_subset df protected_attribute =
     filter (\<lambda>r. col_protected r protected_attribute > 0.5) df"

definition get_error_rate_and_constraints :: "row list \<Rightarrow> real \<Rightarrow> error + (real \<times> real list)" where
  "get_error_rate_and_constraints df tpr_max_diff =
     (case error_rate (map col_predictions df) (map col_label df) of
        Inl e \<Rightarrow> Inl e
      | Inr error_rate_local \<Rightarrow>
          (case tpr df of
             Inl e \<Rightarrow> Inl e
           | Inr overall_tpr \<Rightarrow>
               (case sequence_results
                       (map (\<lambda>protected_attribute.
                               case tpr (protected_subset df protected_attribute) of
                                 Inl e \<Rightarrow> Inl e
                               | Inr group_tpr \<Rightarrow> Inr ((overall_tpr - tpr_max_diff) - group_tpr))
                            PROTECTED_COLUMNS) of
                  Inl e \<Rightarrow> Inl e
                | Inr constraints \<Rightarrow> Inr (error_rate_local, constraints))))"

subsection \<open>Simulated-data notebook\<close>

text \<open>
  \<open>recall(labels, predictions)\<close> and \<open>average_hinge_loss(labels, predictions)\<close> work on
  numpy arrays; their divisions are numpy's, so they raise only on a shape mismatch.
  \<open>np.mean\<close> of an empty array is NaN.
\<close>

definition recall :: "real list \<Rightarrow> real list \<Rightarrow> error + float_value" where
  "recall labels predictions =
     (let positive_count = sum_list labels in
      case multiply labels (map (\<lambda>p. to_float (p > 0)) predictions) of
        Inl e \<Rightarrow> Inl e
      | Inr true_positives \<Rightarrow>
          (let true_positive_count = sum_list true_positives
           in Inr (true_divide true_positive_count positive_count)))"

definition average_hinge_loss :: "real list \<Rightarrow> real list \<Rightarrow> error + float_value" where
  "average_hinge_loss labels predictions =
     (let signed_labels = map (\<lambda>l. (l * 2) - 1) labels in
      case multiply signed_labels predictions of
        Inl e \<Rightarrow> Inl e
      | Inr products \<Rightarrow>
          (let losses = map (\<lambda>x. max 0.0 (1.0 - x)) products
           in Inr (true_divide (sum_list losses) (real (length losses)))))"

text \<open>
  \<open>ExampleProblem\<close>: the constructor stores its arguments and the number of
  positively-labeled examples; \<open>constraints\<close> and \<open>proxy_constraints\<close> each return one
  value, the recall lower bound minus the recall, computed from the zero-one indicator
  \<open>predictions > 0\<close> and from \<open>minimum(1.0, predictions)\<close> respectively.
\<close>

record ExampleProblem =
  ep_labels :: "real list"
  ep_predictions :: "real list"
  ep_recall_lower_bound :: real
  ep_positive_count :: real

definition new_ExampleProblem :: "real list \<Rightarrow> real list \<Rightarrow> real \<Rightarrow> ExampleProblem" where
  "new_ExampleProblem labels predictions recall_lower_bound =
     \<lparr>ep_labels = labels, ep_predictions = predictions,
      ep_recall_lower_bound = recall_lower_bound, ep_positive_count = sum_list labels\<rparr>"

definition constraints :: "ExampleProblem \<Rightarrow> error + float_value" where
  "constraints self =
     (case multiply (ep_labels self) (map (\<lambda>p. to_float (p > 0)) (ep_predictions self)) of
        Inl e \<Rightarrow> Inl e
      | Inr true_positives \<Rightarrow>
          (let true_positive_count = sum_list true_positives;
               recall_value = true_divide true_positive_count (ep_positive_count self)
           in Inr (subtract_from (ep_recall_lower_bound self) recall_value)))"

definition proxy_constraints :: "ExampleProblem \<Rightarrow> error + float_value" where
  "proxy_constraints self =
     (case multiply (ep_labels self) (map (\<lambda>p. min 1.0 p) (ep_predictions self)) of
        Inl e \<Rightarrow> Inl e
      | Inr true_positives \<Rightarrow>
          (let true_positive_count = sum_list true_positives;
               recall_value = true_divide true_positive_count (ep_positive_count self)
           in Inr (subtract_from (ep_recall_lower_bound self) recall_value)))"

section \<open>Candidate selection\<close>

text \<open>
  The notebook calls \<open>tfco.find_best_candidate_index(train_errors, train_violations)\<close>;
  the function itself belongs to the library's candidates module, which is not among the
  sources. The definitions of this section follow the specification's description of it.
\<close>

text \<open>
  Modelled from the spec: the feasibility key of a snapshot inside the missing
  \<open>find_best_candidate_index\<close>. Snapshots are ranked "by worst-case constraint violation
  (ascending; any snapshot with all constraints \<open>\<le> 0\<close> ties for best feasibility rank)":
  the key is the largest entry of the snapshot's violation vector, and 0 when no entry is
  positive.
\<close>

definition worst_violation :: "real list \<Rightarrow> real" where
  "worst_violation violation_row = fold max violation_row 0"

text \<open>
  Modelled from the spec: the rank used by the missing \<open>find_best_candidate_index\<close>
  ("rank snapshots ... ascending"). The rank of a key is the number of snapshots with a
  strictly smaller key, so equal keys tie and the best rank is 0.
\<close>

definition rank_of :: "real list \<Rightarrow> real \<Rightarrow> nat" where
  "rank_of keys k = length (filter (\<lambda>x. x < k) keys)"

text \<open>
  Modelled from the spec: the two rankings of the missing \<open>find_best_candidate_index\<close>,
  "rank snapshots by error (ascending) and by worst-case constraint violation
  (ascending)", for the snapshot at position \<open>i\<close>.
\<close>

definition error_rank :: "real list \<Rightarrow> nat \<Rightarrow> nat" where
  "error_rank errors i = rank_of errors (errors ! i)"

definition violation_rank :: "real list list \<Rightarrow> nat \<Rightarrow> nat" where
  "violation_rank violations i =
     rank_of (map worst_violation violations) (worst_violation (violations ! i))"

text \<open>
  Modelled from the spec: the combined rank of the missing \<open>find_best_candidate_index\<close>,
  "for each snapshot compute \<open>max(error_rank, violation_rank)\<close>".
\<close>

definition combined_rank :: "real list \<Rightarrow> real list list \<Rightarrow> nat \<Rightarrow> nat" where
  "combined_rank errors violations i = max (error_rank errors i) (violation_rank violations i)"

text \<open>
  Modelled from the spec: the selection step of the missing \<open>find_best_candidate_index\<close>,
  "return the index minimizing this combined rank, tie-broken by lowest error". One pass
  over the indices keeps the best one seen so far; an index replaces it when its rank is
  smaller, or equal with a smaller error.
\<close>

definition keep_better :: "(nat \<Rightarrow> nat) \<Rightarrow> real list \<Rightarrow> nat \<Rightarrow> nat \<Rightarrow> nat" where
  "keep_better rank errors i best =
     (if rank i < rank best \<or> (rank i = rank best \<and> errors ! i < errors ! best)
      then i else best)"

text \<open>
  Modelled from the spec: the pass of the missing \<open>find_best_candidate_index\<close> over all
  snapshot positions, starting from position 0.
\<close>

definition select_best :: "(nat \<Rightarrow> nat) \<Rightarrow> real list \<Rightarrow> nat" where
  "select_best rank errors = fold (keep_better rank errors) [1..<length errors] 0"

text \<open>
  The order that selection minimises: a smaller combined rank, or an equal rank and an
  error that is not larger.
\<close>

definition no_worse :: "(nat \<Rightarrow> nat) \<Rightarrow> real list \<Rightarrow> nat \<Rightarrow> nat \<Rightarrow> bool" where
  "no_worse rank errors i j \<longleftrightarrow>
     rank i < rank j \<or> (rank i = rank j \<and> errors ! i \<le> errors ! j)"

text \<open>
  Modelled from the spec: the missing \<open>find_best_candidate_index(errors, violations)\<close>.
  The spec defines the result for a sequence of snapshots; the model has no result
  (\<open>None\<close>) when there is no snapshot or the errors vector and the violations matrix do
  not have one entry per snapshot each.
\<close>

definition find_best_candidate_index :: "real list \<Rightarrow> real list list \<Rightarrow> nat option" where
  "find_best_candidate_index errors violations =
     (if errors = [] \<or> length errors \<noteq> length violations then None
      else Some (select_best (combined_rank errors violations) errors))"

section \<open>Expected error and violations of a distribution over snapshots\<close>

text \<open>
  \<open>_get_exp_error_rate_constraints(cand_dist, error_rates_vector, constraints_matrix)\<close>
  of the fairness notebook: \<open>np.dot\<close> of two vectors and \<open>np.matmul\<close> of a vector of shape
  \<open>(n,)\<close> with a matrix of shape \<open>(n, m)\<close>. A matrix is the list of its rows, one per
  snapshot; shapes that do not fit raise \<open>ValueError\<close>.
\<close>

definition dot :: "real list \<Rightarrow> real list \<Rightarrow> error + real" where
  "dot a b = (if length a = length b then Inr (sum_list (map2 (*) a b)) else Inl ValueError)"

definition num_columns :: "real list list \<Rightarrow> nat" where
  "num_columns matrix = (case matrix of [] \<Rightarrow> 0 | first_row # _ \<Rightarrow> length first_row)"

definition matmul :: "real list \<Rightarrow> real list list \<Rightarrow> error + real list" where
  "matmul v matrix =
     (if length v = length matrix \<and> list_all (\<lambda>r. length r = num_columns matrix) matrix
      then Inr (map (\<lambda>j. sum_list (map2 (\<lambda>p r. p * r ! j) v matrix)) [0..<num_columns matrix])
      else Inl ValueError)"

definition get_exp_error_rate_constraints ::
  "real list \<Rightarrow> real list \<Rightarrow> real list list \<Rightarrow> error + (real \<times> real list)" where
  "get_exp_error_rate_constraints cand_dist error_rates_vector constraints_matrix =
     (case dot cand_dist error_rates_vector of
        Inl e \<Rightarrow> Inl e
      | Inr expected_error_rate \<Rightarrow>
          (case matmul cand_dist constraints_matrix of
             Inl e \<Rightarrow> Inl e
           | Inr expected_constraints \<Rightarrow> Inr (expected_error_rate, expected_constraints)))"



text \<open>
  The notebook calls \<open>tfco.find_best_candidate_distribution(train_errors,
  train_violations)\<close>; the function itself belongs to the library's candidates module,
  which is not among the sources. The three definitions below state what the
  specification says of its result.
\<close>

text \<open>
  Modelled from the spec: the value that the missing \<open>find_best_candidate_distribution\<close>
  returns is a CandidateDistribution, "a probability vector over the snapshot sequence
  (sums to 1, nonnegative)".
\<close>

definition candidate_distribution :: "real list \<Rightarrow> bool" where
  "candidate_distribution cand_dist \<longleftrightarrow>
     list_all (\<lambda>p. 0 \<le> p) cand_dist \<and> sum_list cand_dist = 1"

text \<open>
  Modelled from the spec: the result of the missing \<open>find_best_candidate_distribution\<close> is
  "feasible in expectation": every expected constraint violation is \<open>\<le> 0\<close>.
\<close>

definition feasible_in_expectation :: "real list \<Rightarrow> real list \<Rightarrow> real list list \<Rightarrow> bool" where
  "feasible_in_expectation cand_dist errors violations \<longleftrightarrow>
     (case get_exp_error_rate_constraints cand_dist errors violations of
        Inl e \<Rightarrow> False
      | Inr (expected_error_rate, expected_constraints) \<Rightarrow>
          list_all (\<lambda>c. c \<le> 0) expected_constraints)"

text \<open>
  Modelled from the spec: the missing \<open>find_best_candidate_distribution\<close> is to "solve for
  a distribution over snapshots that is feasible in expectation and minimizes expected
  error", and to "return the best distribution found" otherwise.
  \<open>best_candidate_distribution errors violations cand_dist\<close> holds when \<open>cand_dist\<close> can
  be its result: a probability vector with one weight per snapshot which, whenever some
  probability vector is feasible in expectation, is feasible itself and has an expected
  error that no feasible probability vector undercuts. When no probability vector is
  feasible the spec does not say which distribution is the best one found, and the model
  admits every probability vector over the snapshots. The expected error of a vector
  with one weight per snapshot is the sum of the products with the errors, the value of
  \<open>np.dot\<close>.
\<close>

definition best_candidate_distribution :: "real list \<Rightarrow> real list list \<Rightarrow> real list \<Rightarrow> bool" where
  "best_candidate_distribution errors violations cand_dist \<longleftrightarrow>
     candidate_distribution cand_dist \<and> length cand_dist = length errors \<and>
     ((\<exists>other. candidate_distribution other \<and> feasible_in_expectation other errors violations)
        \<longrightarrow> feasible_in_expectation cand_dist errors violations \<and>
            (\<forall>other. candidate_distribution other \<and>
                     feasible_in_expectation other errors violations
               \<longrightarrow> sum_list (map2 (*) cand_dist errors) \<le> sum_list (map2 (*) other errors)))"

section \<open>Properties of the minibatch index collection\<close>

subsection \<open>The collected indices walk the rows cyclically\<close>

lemma length_py_range: "length (py_range a b) = nat (b - a)"
  by (simp add: py_range_def)

lemma nth_py_range: "int i < b - a \<Longrightarrow> py_range a b ! i = a + int i"
  by (simp add: py_range_def)

lemma cyc_split:
  assumes "0 \<le> s" "s < nr" "nr \<le> s + int r"
  shows "map (\<lambda>j. (s + int j) mod nr) [0..<r] =
         py_range s nr @ map (\<lambda>j. (0 + int j) mod nr) [0..<r - nat (nr - s)]"
proof (rule nth_equalityI)
  show "length (map (\<lambda>j. (s + int j) mod nr) [0..<r]) =
        length (py_range s nr @ map (\<lambda>j. (0 + int j) mod nr) [0..<r - nat (nr - s)])"
    using assms by (simp add: length_py_range)
next
  fix i assume "i < length (map (\<lambda>j. (s + int j) mod nr) [0..<r])"
  then have i: "i < r" by simp
  show "map (\<lambda>j. (s + int j) mod nr) [0..<r] ! i =
        (py_range s nr @ map (\<lambda>j. (0 + int j) mod nr) [0..<r - nat (nr - s)]) ! i"
  proof (cases "int i < nr - s")
    case True
    then have "(s + int i) mod nr = s + int i" using assms by simp
    moreover have "i < nat (nr - s)" using True by linarith
    ultimately show ?thesis using True i
      by (simp add: nth_append length_py_range nth_py_range)
  next
    case False
    then have ge: "nat (nr - s) \<le> i" by simp
    have "s + int i = int (i - nat (nr - s)) + nr"
      using ge assms by (simp add: of_nat_diff)
    then have "(s + int i) mod nr = int (i - nat (nr - s)) mod nr" by simp
    then show ?thesis using False i ge assms
      by (simp add: nth_append length_py_range)
  qed
qed

lemma cyc_plain:
  assumes "0 \<le> s" "s + int r < nr"
  shows "map (\<lambda>j. (s + int j) mod nr) [0..<r] = py_range s (s + int r)"
proof (rule nth_equalityI)
  show "length (map (\<lambda>j. (s + int j) mod nr) [0..<r]) = length (py_range s (s + int r))"
    by (simp add: length_py_range)
next
  fix i assume "i < length (map (\<lambda>j. (s + int j) mod nr) [0..<r])"
  then have i: "i < r" by simp
  then have "(s + int i) mod nr = s + int i" using assms by simp
  then show "map (\<lambda>j. (s + int j) mod nr) [0..<r] ! i = py_range s (s + int r) ! i"
    using i by (simp add: nth_py_range)
qed

lemma collect_indices_cyclic:
  assumes "0 \<le> s" "s < nr"
  shows "collect_indices ms nr acc s =
         Some (acc @ map (\<lambda>j. (s + int j) mod nr) [0..<nat (ms - int (length acc))],
               (s + int (nat (ms - int (length acc)))) mod nr)"
  using assms
proof (induction "nat (ms - int (length acc))" arbitrary: acc s rule: less_induct)
  case less
  let ?r = "nat (ms - int (length acc))"
  show ?case
  proof (cases "int (length acc) < ms")
    case False
    then show ?thesis using less.prems by (subst collect_indices.simps) simp
  next
    case True
    then have r: "int ?r = ms - int (length acc)" by simp
    show ?thesis
    proof (cases "nr \<le> s + ms - int (length acc)")
      case wrap: True
      let ?acc' = "acc @ py_range s nr"
      let ?r' = "nat (ms - int (length ?acc'))"
      have step: "collect_indices ms nr acc s = collect_indices ms nr ?acc' 0"
        using True wrap by (subst collect_indices.simps) (simp add: Let_def)
      have len: "int (length ?acc') = int (length acc) + (nr - s)"
        using less.prems by (simp add: length_py_range)
      have smaller: "?r' < ?r"
        using len less.prems True by linarith
      have r': "?r' = ?r - nat (nr - s)"
        using len less.prems True by linarith
      have IH: "collect_indices ms nr ?acc' 0 =
         Some (?acc' @ map (\<lambda>j. (0 + int j) mod nr) [0..<?r'], (0 + int ?r') mod nr)"
        using less.prems by (intro less.hyps[OF smaller]) simp_all
      have split: "map (\<lambda>j. (s + int j) mod nr) [0..<?r] =
         py_range s nr @ map (\<lambda>j. (0 + int j) mod nr) [0..<?r']"
        unfolding r' using less.prems wrap r by (intro cyc_split) simp_all
      have "s + int ?r = int ?r' + nr"
        using wrap r len less.prems by linarith
      then have fin: "(s + int ?r) mod nr = (0 + int ?r') mod nr"
        by simp
      show ?thesis
        unfolding step IH split fin by simp
    next
      case nowrap: False
      let ?e = "s + ms - int (length acc)"
      let ?acc' = "acc @ py_range s ?e"
      have step: "collect_indices ms nr acc s = collect_indices ms nr ?acc' ?e"
        using True nowrap by (subst collect_indices.simps) (simp add: Let_def)
      have e: "?e = s + int ?r" using r by simp
      have len: "int (length ?acc') = ms"
        using True by (simp add: length_py_range)
      have stop: "collect_indices ms nr ?acc' ?e = Some (?acc', ?e)"
        using len by (subst collect_indices.simps) simp
      have plain: "map (\<lambda>j. (s + int j) mod nr) [0..<?r] = py_range s ?e"
        unfolding e using less.prems nowrap e by (intro cyc_plain) simp_all
      have "0 \<le> ?e" "?e < nr"
        using True nowrap less.prems by linarith+
      then have "?e mod nr = ?e" by simp
      then have fin: "(s + int ?r) mod nr = ?e"
        unfolding e .
      show ?thesis
        unfolding step stop plain fin by simp
    qed
  qed
qed


text \<open>
  Taken alone, the while loop does not return for every state: with no rows and a start
  index that is not below \<open>num_rows\<close> it appends the empty range forever. The clamp to
  \<open>num_rows\<close> is what keeps \<open>training_generator\<close> out of these states.
\<close>

lemma collect_indices_stuck:
  assumes ret: "collect_indices ms nr acc s = Some y"
  shows "\<not> (nr \<le> 0 \<and> nr \<le> s \<and> int (length acc) < ms)"
proof (rule collect_indices.raw_induct
    [where P = "\<lambda>ms nr acc s y. \<not> (nr \<le> 0 \<and> nr \<le> s \<and> int (length acc) < ms)", OF _ ret])
  fix collect :: "int \<Rightarrow> int \<Rightarrow> int list \<Rightarrow> int \<Rightarrow> (int list \<times> int) option"
    and ms nr acc s y
  assume IH: "\<And>ms nr acc s y. collect ms nr acc s = Some y \<Longrightarrow>
                \<not> (nr \<le> 0 \<and> nr \<le> s \<and> int (length acc) < ms)"
    and body: "(if int (length acc) < ms then
        (let minibatch_end_index = s + ms - int (length acc)
         in if minibatch_end_index \<ge> nr then collect ms nr (acc @ py_range s nr) 0
            else collect ms nr (acc @ py_range s minibatch_end_index) minibatch_end_index)
      else Some (acc, s)) = Some y"
  show "\<not> (nr \<le> 0 \<and> nr \<le> s \<and> int (length acc) < ms)"
  proof
    assume stuck: "nr \<le> 0 \<and> nr \<le> s \<and> int (length acc) < ms"
    then have wrap: "nr \<le> s + ms - int (length acc)" by linarith
    have empty: "py_range s nr = []" using stuck by (simp add: py_range_def)
    have "collect ms nr acc 0 = Some y"
      using body stuck wrap empty by (simp add: Let_def)
    then have "\<not> (nr \<le> 0 \<and> nr \<le> 0 \<and> int (length acc) < ms)"
      by (rule IH)
    then show False using stuck by simp
  qed
qed

lemma collect_indices_empty_frame: "collect_indices 1 0 [] 0 = None"
proof (cases "collect_indices 1 0 [] 0")
  case None
  then show ?thesis .
next
  case (Some y)
  then show ?thesis using collect_indices_stuck[OF Some] by simp
qed

lemma run_iterations_cyclic:
  assumes "0 \<le> s" "s < nr"
  shows "run_iterations ms nr k s =
         Some (map (\<lambda>n. map (\<lambda>j. (s + int (n * nat ms + j)) mod nr) [0..<nat ms]) [0..<k],
               (s + int (k * nat ms)) mod nr)"
  using assms
proof (induction k arbitrary: s)
  case 0
  then show ?case by simp
next
  case (Suc k)
  let ?s' = "(s + int (nat ms)) mod nr"
  have first: "collect_indices ms nr [] s =
      Some (map (\<lambda>j. (s + int j) mod nr) [0..<nat ms], ?s')"
    using collect_indices_cyclic[OF Suc.prems, of ms "[]"] by simp
  have s': "0 \<le> ?s'" "?s' < nr" using Suc.prems by simp_all
  have shift: "(?s' + int m) mod nr = (s + int (nat ms + m)) mod nr" for m
    by (simp add: mod_add_left_eq add.assoc)
  have rest: "run_iterations ms nr k ?s' =
      Some (map (\<lambda>n. map (\<lambda>j. (s + int (Suc n * nat ms + j)) mod nr) [0..<nat ms]) [0..<k],
            (s + int (Suc k * nat ms)) mod nr)"
    unfolding Suc.IH[OF s'] shift by (simp add: add.assoc)
  have unroll: "map f [0..<Suc k] = f 0 # map (\<lambda>n. f (Suc n)) [0..<k]" for f :: "nat \<Rightarrow> int list"
    by (simp add: upt_conv_Cons map_Suc_upt[symmetric] del: upt_Suc)
  show ?case
    unfolding unroll
    by (simp only: run_iterations.simps first option.case prod.case rest) simp
qed

lemma run_loops_cyclic:
  assumes "0 \<le> s" "s < nr"
  shows "run_loops ms nr per n s =
         Some (map (\<lambda>l. map (\<lambda>k. map (\<lambda>j. (s + int ((l * per + k) * nat ms + j)) mod nr)
                                      [0..<nat ms]) [0..<per]) [0..<n],
               (s + int (n * per * nat ms)) mod nr)"
  using assms
proof (induction n arbitrary: s)
  case 0
  then show ?case by simp
next
  case (Suc n)
  let ?s' = "(s + int (per * nat ms)) mod nr"
  have first: "run_iterations ms nr per s =
      Some (map (\<lambda>k. map (\<lambda>j. (s + int (k * nat ms + j)) mod nr) [0..<nat ms]) [0..<per], ?s')"
    by (rule run_iterations_cyclic[OF Suc.prems])
  have s': "0 \<le> ?s'" "?s' < nr" using Suc.prems by simp_all
  have shift: "(?s' + int m) mod nr = (s + int (per * nat ms + m)) mod nr" for m
    by (simp add: mod_add_left_eq add.assoc)
  have idx: "per * nat ms + ((l * per + k) * nat ms + j) = (Suc l * per + k) * nat ms + j"
    for l k j
    by (simp add: algebra_simps)
  have fin: "per * nat ms + n * per * nat ms = Suc n * per * nat ms"
    by (simp add: algebra_simps)
  have rest: "run_loops ms nr per n ?s' =
      Some (map (\<lambda>l. map (\<lambda>k. map (\<lambda>j. (s + int ((Suc l * per + k) * nat ms + j)) mod nr)
                                   [0..<nat ms]) [0..<per]) [0..<n],
            (s + int (Suc n * per * nat ms)) mod nr)"
    unfolding Suc.IH[OF s'] shift idx fin ..
  have unroll: "map f [0..<Suc n] = f 0 # map (\<lambda>l. f (Suc l)) [0..<n]"
    for f :: "nat \<Rightarrow> int list list"
    by (simp add: upt_conv_Cons map_Suc_upt[symmetric] del: upt_Suc)
  show ?case
    unfolding unroll
    by (simp only: run_loops.simps first option.case prod.case rest) simp
qed

text \<open>
  Claim C10. For a training dataframe with \<open>num_rows \<ge> 1\<close> rows and a requested minibatch
  size whose clamped value \<open>min requested num_rows\<close> is at least 1, every run of the inner
  while loop of \<open>training_generator\<close> returns, in every iteration of every epoch. Each
  collected \<open>minibatch_indices\<close> list has exactly \<open>minibatch_size\<close> elements, each
  element is a position in \<open>[0, num_rows)\<close>, and the lists continue one another
  cyclically: element \<open>j\<close> of iteration \<open>k\<close> of epoch \<open>l\<close> is
  \<open>((l * num_iterations_per_loop + k) * minibatch_size + j) mod num_rows\<close>, so the walk
  wraps from the last row back to index 0.
\<close>

theorem training_generator_minibatch_indices:
  assumes "1 \<le> num_rows"
    and "minibatch_size = min requested num_rows"
    and "1 \<le> minibatch_size"
  shows "\<exists>loops final.
           training_generator_indices requested num_rows num_iterations_per_loop num_loops =
             Some (loops, final) \<and>
           length loops = num_loops \<and>
           (\<forall>minibatches \<in> set loops.
              length minibatches = num_iterations_per_loop \<and>
              (\<forall>minibatch_indices \<in> set minibatches.
                 length minibatch_indices = nat minibatch_size \<and>
                 (\<forall>ii \<in> set minibatch_indices. 0 \<le> ii \<and> ii < num_rows))) \<and>
           (\<forall>l < num_loops. \<forall>k < num_iterations_per_loop. \<forall>j < nat minibatch_size.
              loops ! l ! k ! j =
                int ((l * num_iterations_per_loop + k) * nat minibatch_size + j) mod num_rows)"
proof -
  let ?loops = "map (\<lambda>l. map (\<lambda>k. map (\<lambda>j.
        (0 + int ((l * num_iterations_per_loop + k) * nat minibatch_size + j)) mod num_rows)
        [0..<nat minibatch_size]) [0..<num_iterations_per_loop]) [0..<num_loops]"
  have run: "training_generator_indices requested num_rows num_iterations_per_loop num_loops =
             Some (?loops,
                   (0 + int (num_loops * num_iterations_per_loop * nat minibatch_size))
                     mod num_rows)"
    unfolding training_generator_indices_def Let_def assms(2)[symmetric]
    using assms(1) by (intro run_loops_cyclic) simp_all
  have "length ?loops = num_loops" by simp
  moreover have "\<forall>minibatches \<in> set ?loops.
              length minibatches = num_iterations_per_loop \<and>
              (\<forall>minibatch_indices \<in> set minibatches.
                 length minibatch_indices = nat minibatch_size \<and>
                 (\<forall>ii \<in> set minibatch_indices. 0 \<le> ii \<and> ii < num_rows))"
    using assms(1) by auto
  moreover have "\<forall>l < num_loops. \<forall>k < num_iterations_per_loop. \<forall>j < nat minibatch_size.
              ?loops ! l ! k ! j =
                int ((l * num_iterations_per_loop + k) * nat minibatch_size + j) mod num_rows"
    by simp
  ultimately show ?thesis using run by blast
qed

theorem training_generator_minibatch_indices_witness:
  "(1::int) \<le> 5 \<and> (3::int) = min 3 5 \<and> (1::int) \<le> 3 \<and>
   (\<exists>loops final. training_generator_indices 3 5 2 1 = Some (loops, final) \<and>
      length loops = 1 \<and> length (loops ! 0) = 2 \<and> length (loops ! 0 ! 1) = 3 \<and>
      loops ! 0 ! 1 ! 0 = 3 \<and> loops ! 0 ! 1 ! 1 = 4 \<and> loops ! 0 ! 1 ! 2 = 0)"
proof -
  obtain loops final where
    run: "training_generator_indices 3 5 2 1 = Some (loops, final)"
    and len: "length loops = 1"
    and each: "\<forall>minibatches \<in> set loops.
              length minibatches = 2 \<and>
              (\<forall>minibatch_indices \<in> set minibatches.
                 length minibatch_indices = nat 3 \<and>
                 (\<forall>ii \<in> set minibatch_indices. 0 \<le> ii \<and> ii < 5))"
    and cyc: "\<forall>l < 1. \<forall>k < 2. \<forall>j < nat 3.
                loops ! l ! k ! j = int ((l * 2 + k) * nat 3 + j) mod 5"
    using training_generator_minibatch_indices[of 5 3 3 2 1] by auto
  have l0: "loops ! 0 \<in> set loops" using len by simp
  then have len0: "length (loops ! 0) = 2" using each by blast
  then have "loops ! 0 ! 1 \<in> set (loops ! 0)" by simp
  then have len01: "length (loops ! 0 ! 1) = 3" using each l0 by fastforce
  have "loops ! 0 ! 1 ! 0 = 3" "loops ! 0 ! 1 ! 1 = 4" "loops ! 0 ! 1 ! 2 = 0"
    using cyc by simp_all
  then show ?thesis using run len len0 len01 by simp
qed

section \<open>The metric functions on the columns of one frame\<close>

text \<open>
  On columns of equal length the elementwise product does not raise, and each rate is a
  count or a sum over the rows divided by its denominator.
\<close>

lemma multiply_same_length:
  "length xs = length ys \<Longrightarrow> multiply xs ys = Inr (map2 (*) xs ys)"
  by (simp add: multiply_def)

lemma error_rate_frame:
  assumes "df \<noteq> []"
  shows "error_rate (map col_predictions df) (map col_label df) =
         Inr (real (length (filter (\<lambda>r. (to_float (col_label r > 0) - to_float (col_label r \<le> 0))
                                          * col_predictions r \<le> 0) df))
              / real (length df))"
proof -
  have prod: "map2 (*) (signed_labels_of (map col_label df)) (map col_predictions df) =
      map (\<lambda>r. (to_float (col_label r > 0) - to_float (col_label r \<le> 0)) * col_predictions r) df"
    by (induction df) (simp_all add: signed_labels_of_def)
  have "multiply (signed_labels_of (map col_label df)) (map col_predictions df) =
      Inr (map (\<lambda>r. (to_float (col_label r > 0) - to_float (col_label r \<le> 0)) * col_predictions r) df)"
    unfolding prod[symmetric] by (rule multiply_same_length) (simp add: signed_labels_of_def)
  then show ?thesis
    using assms by (simp add: error_rate_def py_float_div_def filter_map o_def)
qed

lemma recall_frame:
  "recall (map col_label df) (map col_predictions df) =
     Inr (true_divide (sum_list (map (\<lambda>r. col_label r * to_float (col_predictions r > 0)) df))
                      (sum_list (map col_label df)))"
proof -
  have prod: "map2 (*) (map col_label df) (map (\<lambda>p. to_float (p > 0)) (map col_predictions df)) =
      map (\<lambda>r. col_label r * to_float (col_predictions r > 0)) df"
    by (induction df) simp_all
  have "multiply (map col_label df) (map (\<lambda>p. to_float (p > 0)) (map col_predictions df)) =
      Inr (map (\<lambda>r. col_label r * to_float (col_predictions r > 0)) df)"
    unfolding prod[symmetric] by (rule multiply_same_length) simp
  then show ?thesis by (simp add: recall_def)
qed

lemma sequence_results_Inr:
  "sequence_results (map f xs) = Inr vs \<longleftrightarrow>
     length vs = length xs \<and> (\<forall>i < length xs. f (xs ! i) = Inr (vs ! i))"
proof (induction xs arbitrary: vs)
  case Nil
  then show ?case by auto
next
  case (Cons x xs)
  show ?case
  proof (cases "f x")
    case (Inl e)
    then show ?thesis by auto
  next
    case fx: (Inr v)
    show ?thesis
    proof (cases "sequence_results (map f xs)")
      case (Inl e)
      have "\<not> (length vs = length (x # xs) \<and> (\<forall>i < length (x # xs). f ((x # xs) ! i) = Inr (vs ! i)))"
      proof
        assume a: "length vs = length (x # xs) \<and> (\<forall>i < length (x # xs). f ((x # xs) ! i) = Inr (vs ! i))"
        then obtain w ws where vs: "vs = w # ws" by (cases vs) auto
        have "length ws = length xs" using a vs by simp
        moreover have "\<forall>i < length xs. f (xs ! i) = Inr (ws ! i)"
          using a vs by auto
        ultimately have "sequence_results (map f xs) = Inr ws" using Cons.IH by blast
        then show False using Inl by simp
      qed
      then show ?thesis using fx Inl by simp
    next
      case (Inr ws)
      then have ws: "length ws = length xs" "\<forall>i < length xs. f (xs ! i) = Inr (ws ! i)"
        using Cons.IH[of ws] by auto
      have res: "sequence_results (map f (x # xs)) = Inr (v # ws)" using fx Inr by simp
      show ?thesis
      proof
        assume "sequence_results (map f (x # xs)) = Inr vs"
        then have "vs = v # ws" using res by simp
        then show "length vs = length (x # xs) \<and> (\<forall>i < length (x # xs). f ((x # xs) ! i) = Inr (vs ! i))"
          using ws fx by (auto simp: nth_Cons split: nat.splits)
      next
        assume a: "length vs = length (x # xs) \<and> (\<forall>i < length (x # xs). f ((x # xs) ! i) = Inr (vs ! i))"
        then obtain w' ws' where vs: "vs = w' # ws'" by (cases vs) auto
        have "f x = Inr w'" using a vs by auto
        then have "w' = v" using fx by simp
        moreover have "length ws' = length xs" "\<forall>i < length xs. f (xs ! i) = Inr (ws' ! i)"
          using a vs by auto
        then have "sequence_results (map f xs) = Inr ws'" using Cons.IH by blast
        then have "ws' = ws" using Inr by simp
        ultimately show "sequence_results (map f (x # xs)) = Inr vs" using res vs by simp
      qed
    qed
  qed
qed

lemma constraints_recall:
  "constraints (new_ExampleProblem labels predictions recall_lower_bound) =
     (case recall labels predictions of
        Inl e \<Rightarrow> Inl e
      | Inr recall_value \<Rightarrow> Inr (subtract_from recall_lower_bound recall_value))"
  by (simp add: constraints_def recall_def new_ExampleProblem_def Let_def split: sum.splits)

lemma sequence_results_error:
  assumes "x \<in> set xs" and "f x = Inl e0" and "\<And>y e. f y = Inl e \<Longrightarrow> e = E"
  shows "sequence_results (map f xs) = Inl E"
  using assms(1)
proof (induction xs)
  case Nil
  then show ?case by simp
next
  case (Cons y ys)
  show ?case
  proof (cases "f y")
    case (Inl e)
    then show ?thesis using assms(3)[OF Inl] by simp
  next
    case (Inr v)
    then have "x \<noteq> y" using assms(2) by auto
    then have "x \<in> set ys" using Cons.prems by simp
    then have "sequence_results (map f ys) = Inl E" by (rule Cons.IH)
    then show ?thesis using Inr by simp
  qed
qed

section \<open>Rates whose denominator is empty\<close>

lemma filter_none: "(\<forall>x \<in> set xs. \<not> P x) \<Longrightarrow> filter P xs = []"
  by (induction xs) auto

lemma multiply_compatible:
  "length xs = length ys \<or> length xs = 1 \<or> length ys = 1 \<Longrightarrow> \<exists>zs. multiply xs ys = Inr zs"
  by (auto simp: multiply_def)

lemma sum_list_all_zero: "(\<forall>x \<in> set xs. x = (0::real)) \<Longrightarrow> sum_list xs = 0"
  by (induction xs) auto

lemma hd_all_zero: "(\<forall>x \<in> set xs. x = (0::real)) \<Longrightarrow> length xs = 1 \<Longrightarrow> hd xs = 0"
  by (cases xs) auto

lemma multiply_zero_left:
  assumes "\<forall>x \<in> set xs. x = 0" and "multiply xs ys = Inr zs"
  shows "sum_list zs = 0"
proof -
  consider (same) "length xs = length ys"
    | (left) "length xs \<noteq> length ys" "length xs = 1"
    | (right) "length xs \<noteq> length ys" "length xs \<noteq> 1" "length ys = 1"
    using assms(2) by (auto simp: multiply_def split: if_splits)
  then have "\<forall>z \<in> set zs. z = 0"
  proof cases
    case same
    then have "zs = map2 (*) xs ys" using assms(2) by (simp add: multiply_def)
    then show ?thesis using assms(1) by (auto simp: set_zip)
  next
    case left
    then have "zs = map (\<lambda>y. hd xs * y) ys" using assms(2) by (simp add: multiply_def)
    then show ?thesis using hd_all_zero[OF assms(1) left(2)] by simp
  next
    case right
    then have "zs = map (\<lambda>x. x * hd ys) xs" using assms(2) by (simp add: multiply_def)
    then show ?thesis using assms(1) by simp
  qed
  then show ?thesis by (rule sum_list_all_zero)
qed

lemma positive_prediction_rate_empty:
  assumes "\<forall>s \<in> set subset'. s \<le> 0"
    and "length predictions = length subset' \<or> length predictions = 1 \<or> length subset' = 1"
  shows "positive_prediction_rate predictions subset' = Inl ZeroDivisionError"
proof -
  obtain zs where "multiply (map (\<lambda>p. to_float (p > 0)) predictions)
                    (map (\<lambda>s. to_float (s > 0)) subset') = Inr zs"
    using multiply_compatible[of "map (\<lambda>p. to_float (p > 0)) predictions"
        "map (\<lambda>s. to_float (s > 0)) subset'"] assms(2) by auto
  moreover have "filter (\<lambda>s. s > 0) subset' = []"
    using assms(1) by (intro filter_none) auto
  ultimately show ?thesis
    by (simp add: positive_prediction_rate_def py_float_div_def)
qed

lemma tpr_empty:
  assumes "\<forall>r \<in> set df. col_label r \<le> 0.5"
  shows "tpr df = Inl ZeroDivisionError"
proof -
  have "filter (\<lambda>r. col_label r > 0.5) df = []"
    using assms by (intro filter_none) auto
  then show ?thesis by (simp add: tpr_def py_float_div_def)
qed

lemma error_rate_empty:
  assumes "predictions = []" and "length labels \<le> 1"
  shows "error_rate predictions labels = Inl ZeroDivisionError"
  using assms by (cases labels) (simp_all add: error_rate_def multiply_def signed_labels_of_def py_float_div_def)

lemma recall_empty:
  assumes "\<forall>l \<in> set labels. l = 0"
    and "length labels = length predictions \<or> length labels = 1 \<or> length predictions = 1"
  shows "recall labels predictions = Inr NaN"
proof -
  obtain zs where zs: "multiply labels (map (\<lambda>p. to_float (p > 0)) predictions) = Inr zs"
    using multiply_compatible[of labels "map (\<lambda>p. to_float (p > 0)) predictions"] assms(2)
    by auto
  have "sum_list zs = 0" using multiply_zero_left[OF assms(1) zs] .
  moreover have "sum_list labels = 0" using assms(1) by (rule sum_list_all_zero)
  ultimately show ?thesis using zs by (simp add: recall_def true_divide_def)
qed

lemma tpr_error: "tpr df = Inl e \<Longrightarrow> e = ZeroDivisionError"
  by (simp add: tpr_def py_float_div_def Let_def split: if_splits)

lemma error_rate_frame_error:
  "error_rate (map col_predictions df) (map col_label df) = Inl e \<Longrightarrow> e = ZeroDivisionError"
proof (cases "df = []")
  case True
  assume "error_rate (map col_predictions df) (map col_label df) = Inl e"
  then show ?thesis using True error_rate_empty[of "[]" "[]"] by simp
next
  case False
  assume "error_rate (map col_predictions df) (map col_label df) = Inl e"
  then show ?thesis using error_rate_frame[OF False] by simp
qed

lemma get_error_rate_and_constraints_empty_group:
  assumes "protected_attribute \<in> set PROTECTED_COLUMNS"
    and "\<forall>r \<in> set (protected_subset df protected_attribute). col_label r \<le> 0.5"
  shows "get_error_rate_and_constraints df tpr_max_diff = Inl ZeroDivisionError"
proof (cases "error_rate (map col_predictions df) (map col_label df)")
  case (Inl e)
  then show ?thesis
    using error_rate_frame_error[OF Inl] by (simp add: get_error_rate_and_constraints_def)
next
  case er: (Inr error_rate_local)
  show ?thesis
  proof (cases "tpr df")
    case (Inl e)
    then show ?thesis
      using er tpr_error[OF Inl] by (simp add: get_error_rate_and_constraints_def)
  next
    case ov: (Inr overall_tpr)
    let ?f = "\<lambda>protected_attribute.
                 case tpr (protected_subset df protected_attribute) of
                   Inl e \<Rightarrow> Inl e
                 | Inr group_tpr \<Rightarrow> Inr ((overall_tpr - tpr_max_diff) - group_tpr)"
    have bad: "?f protected_attribute = Inl ZeroDivisionError"
      using tpr_empty[OF assms(2)] by simp
    have only: "e = ZeroDivisionError" if "?f y = Inl e" for y e
      using that tpr_error[of "protected_subset df y"] by (auto split: sum.splits)
    have "sequence_results (map ?f PROTECTED_COLUMNS) = Inl ZeroDivisionError"
      using assms(1) bad only by (rule sequence_results_error)
    then show ?thesis
      using er ov by (simp add: get_error_rate_and_constraints_def)
  qed
qed

lemma constraints_without_positives:
  assumes "\<forall>l \<in> set labels. l = 0"
    and "length labels = length predictions \<or> length labels = 1 \<or> length predictions = 1"
  shows "constraints (new_ExampleProblem labels predictions recall_lower_bound) = Inr NaN"
  unfolding constraints_recall recall_empty[OF assms] by simp

text \<open>
  Claim C2, as the claim states it, fails: the simulated-data notebook's \<open>recall\<close> divides
  with numpy, so on labels without a positive example it raises nothing and returns NaN.
\<close>

theorem recall_without_positives_returns_nan: "recall [0, 0] [1, -1] = Inr NaN"
  by (simp add: recall_def multiply_def true_divide_def to_float_def)

text \<open>
  Claim C2, amended. When the denominator slice is empty, the fairness notebook's rates
  (\<open>positive_prediction_rate\<close> on a subset without a positive entry, \<open>tpr\<close> on a frame
  without a positively-labeled row, \<open>error_rate\<close> on an empty frame) raise
  \<open>ZeroDivisionError\<close>, and so does \<open>_get_error_rate_and_constraints\<close> when one protected
  group has no positively-labeled row. The simulated-data notebook's \<open>recall\<close> on labels
  that are all 0 raises nothing and returns NaN, and \<open>ExampleProblem.constraints\<close> is then
  NaN as well; the shapes are those numpy accepts.
\<close>

theorem rate_with_empty_denominator:
  "((\<forall>s \<in> set subset'. s \<le> 0) \<and>
      (length predictions = length subset' \<or> length predictions = 1 \<or> length subset' = 1)
      \<longrightarrow> positive_prediction_rate predictions subset' = Inl ZeroDivisionError) \<and>
   ((\<forall>r \<in> set df. col_label r \<le> 0.5) \<longrightarrow> tpr df = Inl ZeroDivisionError) \<and>
   error_rate [] [] = Inl ZeroDivisionError \<and>
   (protected_attribute \<in> set PROTECTED_COLUMNS \<and>
      (\<forall>r \<in> set (protected_subset df' protected_attribute). col_label r \<le> 0.5)
      \<longrightarrow> get_error_rate_and_constraints df' tpr_max_diff = Inl ZeroDivisionError) \<and>
   ((\<forall>l \<in> set labels. l = 0) \<and>
      (length labels = length predictions' \<or> length labels = 1 \<or> length predictions' = 1)
      \<longrightarrow> recall labels predictions' = Inr NaN \<and>
          constraints (new_ExampleProblem labels predictions' recall_lower_bound) = Inr NaN)"
  using positive_prediction_rate_empty[of subset' predictions] tpr_empty[of df]
    error_rate_empty[of "[]" "[]"]
    get_error_rate_and_constraints_empty_group[of protected_attribute df' tpr_max_diff]
    recall_empty[of labels predictions']
    constraints_without_positives[of labels predictions' recall_lower_bound]
  by simp

theorem rate_with_empty_denominator_witness:
  "positive_prediction_rate [1, -1] [0, 0] = Inl ZeroDivisionError \<and>
   tpr [\<lparr>col_predictions = 1, col_label = 0, col_protected = (\<lambda>_. 0)\<rparr>] = Inl ZeroDivisionError \<and>
   get_error_rate_and_constraints
     [\<lparr>col_predictions = 1, col_label = 1, col_protected = (\<lambda>_. 0)\<rparr>] (1 / 20) =
     Inl ZeroDivisionError \<and>
   recall [0, 0] [1, -1] = Inr NaN \<and>
   constraints (new_ExampleProblem [0, 0] [1, -1] (9 / 10)) = Inr NaN"
  using rate_with_empty_denominator[where subset' = "[0, 0]" and predictions = "[1, -1]"
      and df = "[\<lparr>col_predictions = 1, col_label = 0, col_protected = (\<lambda>_. 0)\<rparr>]"
      and df' = "[\<lparr>col_predictions = 1, col_label = 1, col_protected = (\<lambda>_. 0)\<rparr>]"
      and protected_attribute = "''gender_Female''" and tpr_max_diff = "1 / 20"
      and labels = "[0, 0]" and predictions' = "[1, -1]" and recall_lower_bound = "9 / 10"]
  by (simp add: PROTECTED_COLUMNS_def protected_subset_def)

section \<open>Constraint values are the bound minus the rate\<close>

lemma all_less_4: "(\<forall>i<4. P i) \<longleftrightarrow> P (0::nat) \<and> P 1 \<and> P 2 \<and> P 3"
  by (auto simp: less_Suc_eq numeral_eq_Suc)

lemma get_error_rate_and_constraints_Inr:
  "get_error_rate_and_constraints df tpr_max_diff = Inr (e, cs) \<longleftrightarrow>
     error_rate (map col_predictions df) (map col_label df) = Inr e \<and>
     (\<exists>overall_tpr. tpr df = Inr overall_tpr \<and>
        length cs = length PROTECTED_COLUMNS \<and>
        (\<forall>i < length PROTECTED_COLUMNS.
           \<exists>group_tpr. tpr (protected_subset df (PROTECTED_COLUMNS ! i)) = Inr group_tpr \<and>
                       cs ! i = (overall_tpr - tpr_max_diff) - group_tpr))"
proof (cases "error_rate (map col_predictions df) (map col_label df)")
  case (Inl x)
  then show ?thesis by (simp add: get_error_rate_and_constraints_def)
next
  case er: (Inr e')
  show ?thesis
  proof (cases "tpr df")
    case (Inl x)
    then show ?thesis using er by (simp add: get_error_rate_and_constraints_def)
  next
    case ov: (Inr overall)
    let ?f = "\<lambda>protected_attribute.
                 case tpr (protected_subset df protected_attribute) of
                   Inl e \<Rightarrow> Inl e
                 | Inr group_tpr \<Rightarrow> Inr ((overall - tpr_max_diff) - group_tpr)"
    have elem: "?f a = Inr c \<longleftrightarrow>
        (\<exists>group_tpr. tpr (protected_subset df a) = Inr group_tpr \<and>
                     c = (overall - tpr_max_diff) - group_tpr)" for a c
      by (cases "tpr (protected_subset df a)") auto
    have "get_error_rate_and_constraints df tpr_max_diff = Inr (e, cs) \<longleftrightarrow>
          e' = e \<and> sequence_results (map ?f PROTECTED_COLUMNS) = Inr cs"
      using er ov by (auto simp: get_error_rate_and_constraints_def split: sum.splits)
    also have "\<dots> \<longleftrightarrow> e' = e \<and> length cs = length PROTECTED_COLUMNS \<and>
        (\<forall>i < length PROTECTED_COLUMNS. ?f (PROTECTED_COLUMNS ! i) = Inr (cs ! i))"
      unfolding sequence_results_Inr by simp
    finally show ?thesis using er ov unfolding elem by auto
  qed
qed


text \<open>
  Claim C3. A constraint \<open>rate \<ge> bound\<close> is exposed as \<open>bound - rate\<close>, so that a value
  \<open>\<le> 0\<close> means the constraint holds. \<open>ExampleProblem.constraints\<close> returns the recall
  lower bound minus the recall that the notebook's own \<open>recall\<close> function measures on the
  same labels and predictions. \<open>_get_error_rate_and_constraints\<close> returns the error rate
  and, for each protected column in order, \<open>(overall_tpr - tpr_max_diff) - tpr(group)\<close>;
  it returns exactly when the error rate, the overall rate and every group's rate are
  defined.
\<close>

theorem constraint_value_is_bound_minus_rate:
  "constraints (new_ExampleProblem labels predictions recall_lower_bound) =
     (case recall labels predictions of
        Inl err \<Rightarrow> Inl err
      | Inr recall_value \<Rightarrow> Inr (subtract_from recall_lower_bound recall_value)) \<and>
   (recall labels predictions = Inr (Finite r) \<longrightarrow>
      constraints (new_ExampleProblem labels predictions recall_lower_bound) =
        Inr (Finite (recall_lower_bound - r)) \<and>
      (recall_lower_bound - r \<le> 0 \<longleftrightarrow> recall_lower_bound \<le> r)) \<and>
   (get_error_rate_and_constraints df tpr_max_diff = Inr (e, cs) \<longleftrightarrow>
      error_rate (map col_predictions df) (map col_label df) = Inr e \<and>
      (\<exists>overall_tpr. tpr df = Inr overall_tpr \<and>
         length cs = length PROTECTED_COLUMNS \<and>
         (\<forall>i < length PROTECTED_COLUMNS.
            \<exists>group_tpr. tpr (protected_subset df (PROTECTED_COLUMNS ! i)) = Inr group_tpr \<and>
                        cs ! i = (overall_tpr - tpr_max_diff) - group_tpr \<and>
                        (cs ! i \<le> 0 \<longleftrightarrow> overall_tpr - tpr_max_diff \<le> group_tpr))))"
proof -
  have a: "constraints (new_ExampleProblem labels predictions recall_lower_bound) =
     (case recall labels predictions of
        Inl err \<Rightarrow> Inl err
      | Inr recall_value \<Rightarrow> Inr (subtract_from recall_lower_bound recall_value))"
    by (rule constraints_recall)
  have b: "recall labels predictions = Inr (Finite r) \<longrightarrow>
      constraints (new_ExampleProblem labels predictions recall_lower_bound) =
        Inr (Finite (recall_lower_bound - r)) \<and>
      (recall_lower_bound - r \<le> 0 \<longleftrightarrow> recall_lower_bound \<le> r)"
    unfolding a by auto
  have sign: "(c = (x - d) - g \<and> (c \<le> 0 \<longleftrightarrow> x - d \<le> g)) \<longleftrightarrow> c = (x - d) - g"
    for c x d g :: real
    by auto
  have c: "get_error_rate_and_constraints df tpr_max_diff = Inr (e, cs) \<longleftrightarrow>
      error_rate (map col_predictions df) (map col_label df) = Inr e \<and>
      (\<exists>overall_tpr. tpr df = Inr overall_tpr \<and>
         length cs = length PROTECTED_COLUMNS \<and>
         (\<forall>i < length PROTECTED_COLUMNS.
            \<exists>group_tpr. tpr (protected_subset df (PROTECTED_COLUMNS ! i)) = Inr group_tpr \<and>
                        cs ! i = (overall_tpr - tpr_max_diff) - group_tpr \<and>
                        (cs ! i \<le> 0 \<longleftrightarrow> overall_tpr - tpr_max_diff \<le> group_tpr)))"
    unfolding sign by (rule get_error_rate_and_constraints_Inr)
  show ?thesis using a b c by blast
qed

theorem constraint_value_is_bound_minus_rate_witness:
  "recall [1, 1, 0] [1, -1, 1] = Inr (Finite (1 / 2)) \<and>
   constraints (new_ExampleProblem [1, 1, 0] [1, -1, 1] (9 / 10)) = Inr (Finite (2 / 5)) \<and>
   get_error_rate_and_constraints
     [\<lparr>col_predictions = 1, col_label = 1, col_protected = (\<lambda>_. 1)\<rparr>,
      \<lparr>col_predictions = -1, col_label = 1,
       col_protected = (\<lambda>a. if a = ''gender_Female'' then 1 else 0)\<rparr>] (1 / 20) =
     Inr (1 / 2, [- (1 / 20), - (11 / 20), - (11 / 20), - (11 / 20)]) \<and>
   tpr [\<lparr>col_predictions = 1, col_label = 1, col_protected = (\<lambda>_. 1)\<rparr>,
        \<lparr>col_predictions = -1, col_label = 1,
         col_protected = (\<lambda>a. if a = ''gender_Female'' then 1 else 0)\<rparr>] = Inr (1 / 2)"
proof -
  let ?df = "[\<lparr>col_predictions = 1, col_label = 1, col_protected = (\<lambda>_. 1)\<rparr>,
      \<lparr>col_predictions = -1, col_label = 1,
       col_protected = (\<lambda>a. if a = ''gender_Female'' then 1 else 0)\<rparr>]"
  let ?cs = "[- (1 / 20), - (11 / 20), - (11 / 20), - (11 / 20)] :: real list"
  note inst = constraint_value_is_bound_minus_rate[where labels = "[1, 1, 0]"
      and predictions = "[1, -1, 1]" and recall_lower_bound = "9 / 10" and r = "1 / 2"
      and df = ?df and tpr_max_diff = "1 / 20" and e = "1 / 2" and cs = ?cs]
  have r: "recall [1, 1, 0] [1, -1, 1] = Inr (Finite (1 / 2))"
    by (simp add: recall_def multiply_def true_divide_def to_float_def)
  have c: "constraints (new_ExampleProblem [1, 1, 0] [1, -1, 1] (9 / 10)) = Inr (Finite (2 / 5))"
    using inst r by simp
  have er: "error_rate (map col_predictions ?df) (map col_label ?df) = Inr (1 / 2)"
    by (simp add: error_rate_def signed_labels_of_def multiply_def to_float_def py_float_div_def)
  have ov: "tpr ?df = Inr (1 / 2)"
    by (simp add: tpr_def py_float_div_def)
  have len: "length PROTECTED_COLUMNS = 4"
    by (simp add: PROTECTED_COLUMNS_def)
  let ?ok = "\<lambda>i. \<exists>group_tpr. tpr (protected_subset ?df (PROTECTED_COLUMNS ! i)) = Inr group_tpr \<and>
                        ?cs ! i = (1 / 2 - 1 / 20) - group_tpr \<and>
                        (?cs ! i \<le> 0 \<longleftrightarrow> 1 / 2 - 1 / 20 \<le> group_tpr)"
  have g0: "?ok 0"
    by (rule exI[of _ "1 / 2"])
       (simp add: PROTECTED_COLUMNS_def tpr_def protected_subset_def py_float_div_def)
  have g1: "?ok 1"
    by (rule exI[of _ "1"])
       (simp add: PROTECTED_COLUMNS_def tpr_def protected_subset_def py_float_div_def)
  have g2: "?ok 2"
    by (rule exI[of _ "1"])
       (simp add: PROTECTED_COLUMNS_def tpr_def protected_subset_def py_float_div_def)
  have g3: "?ok 3"
    by (rule exI[of _ "1"])
       (simp add: PROTECTED_COLUMNS_def tpr_def protected_subset_def py_float_div_def)
  have groups: "\<forall>i < length PROTECTED_COLUMNS. ?ok i"
    unfolding len all_less_4 using g0 g1 g2 g3 by blast
  have g: "get_error_rate_and_constraints ?df (1 / 20) = Inr (1 / 2, ?cs)"
  proof (rule inst[THEN conjunct2, THEN conjunct2, THEN iffD2])
    have "length ?cs = length PROTECTED_COLUMNS" by (simp add: len)
    then show "error_rate (map col_predictions ?df) (map col_label ?df) = Inr (1 / 2) \<and>
      (\<exists>overall_tpr. tpr ?df = Inr overall_tpr \<and>
         length ?cs = length PROTECTED_COLUMNS \<and>
         (\<forall>i < length PROTECTED_COLUMNS.
            \<exists>group_tpr. tpr (protected_subset ?df (PROTECTED_COLUMNS ! i)) = Inr group_tpr \<and>
                        ?cs ! i = (overall_tpr - 1 / 20) - group_tpr \<and>
                        (?cs ! i \<le> 0 \<longleftrightarrow> overall_tpr - 1 / 20 \<le> group_tpr)))"
      using er ov groups by blast
  qed
  show ?thesis using r c g ov by simp
qed

section \<open>A prediction of exactly 0\<close>

lemma error_rate_zero_prediction:
  assumes "col_predictions r = 0"
    and "(col_label r > 0 \<and> c > 0) \<or> (col_label r \<le> 0 \<and> c < 0)"
  shows "\<exists>e0 e1.
      error_rate (map col_predictions (a @ r # b)) (map col_label (a @ r # b)) = Inr e0 \<and>
      error_rate (map col_predictions (a @ r\<lparr>col_predictions := c\<rparr> # b))
                 (map col_label (a @ r\<lparr>col_predictions := c\<rparr> # b)) = Inr e1 \<and>
      e0 = e1 + 1 / real (length (a @ r # b))"
proof -
  let ?mis = "\<lambda>r. (to_float (col_label r > 0) - to_float (col_label r \<le> 0)) * col_predictions r \<le> 0"
  have m0: "?mis r" using assms(1) by simp
  have mc: "\<not> ?mis (r\<lparr>col_predictions := c\<rparr>)"
    using assms(2) by (auto simp: to_float_def)
  have e0: "error_rate (map col_predictions (a @ r # b)) (map col_label (a @ r # b)) =
        Inr (real (length (filter ?mis (a @ r # b))) / real (length (a @ r # b)))"
    by (rule error_rate_frame) simp
  have e1: "error_rate (map col_predictions (a @ r\<lparr>col_predictions := c\<rparr> # b))
                 (map col_label (a @ r\<lparr>col_predictions := c\<rparr> # b)) =
        Inr (real (length (filter ?mis (a @ r\<lparr>col_predictions := c\<rparr> # b)))
             / real (length (a @ r\<lparr>col_predictions := c\<rparr> # b)))"
    by (rule error_rate_frame) simp
  have "real (length (filter ?mis (a @ r # b))) / real (length (a @ r # b)) =
        real (length (filter ?mis (a @ r\<lparr>col_predictions := c\<rparr> # b)))
             / real (length (a @ r\<lparr>col_predictions := c\<rparr> # b)) + 1 / real (length (a @ r # b))"
    using m0 mc by (simp add: add_divide_distrib)
  then show ?thesis using e0 e1 by blast
qed

lemma tpr_zero_prediction:
  assumes "col_predictions r = 0" and "col_label r > 0.5" and "c < 0"
  shows "\<exists>t0 t1. tpr (a @ r # b) = Inr t0 \<and>
                 tpr (a @ r\<lparr>col_predictions := c\<rparr> # b) = Inr t1 \<and> t1 < t0"
proof -
  let ?tp = "\<lambda>r. col_predictions r \<ge> 0.0 \<and> col_label r > 0.5"
  let ?pos = "\<lambda>r. col_label r > 0.5"
  let ?ln = "real (length (filter ?pos a)) + 1 + real (length (filter ?pos b))"
  let ?rest = "real (length (filter ?tp a)) + real (length (filter ?tp b))"
  have ln: "0 < ?ln" by linarith
  have t0: "tpr (a @ r # b) = Inr ((?rest + 1) / ?ln)"
    using assms ln by (simp add: tpr_def py_float_div_def algebra_simps)
  have t1: "tpr (a @ r\<lparr>col_predictions := c\<rparr> # b) = Inr (?rest / ?ln)"
    using assms ln by (simp add: tpr_def py_float_div_def algebra_simps)
  have "?rest / ?ln < (?rest + 1) / ?ln"
    using ln by (simp add: divide_strict_right_mono)
  then show ?thesis using t0 t1 by blast
qed

lemma tpr_zero_prediction_positive:
  assumes "col_predictions r = 0" and "c \<ge> 0"
  shows "tpr (a @ r # b) = tpr (a @ r\<lparr>col_predictions := c\<rparr> # b)"
  using assms by (simp add: tpr_def)

lemma recall_zero_prediction:
  assumes "col_predictions r = 0" and "c \<le> 0"
  shows "recall (map col_label (a @ r # b)) (map col_predictions (a @ r # b)) =
         recall (map col_label (a @ r\<lparr>col_predictions := c\<rparr> # b))
                (map col_predictions (a @ r\<lparr>col_predictions := c\<rparr> # b))"
  using assms by (simp add: recall_def to_float_def)


lemma sum_list_binary_nonneg:
  "(\<forall>x \<in> set df. col_label x = 0 \<or> col_label x = 1) \<Longrightarrow> 0 \<le> sum_list (map col_label df)"
  by (induction df) auto

lemma recall_zero_prediction_binary:
  assumes "col_predictions r = 0" and "col_label r = 1" and "0 < c"
    and "\<forall>x \<in> set (a @ b). col_label x = 0 \<or> col_label x = 1"
  shows "\<exists>v0 v1.
      recall (map col_label (a @ r # b)) (map col_predictions (a @ r # b)) = Inr (Finite v0) \<and>
      recall (map col_label (a @ r\<lparr>col_predictions := c\<rparr> # b))
             (map col_predictions (a @ r\<lparr>col_predictions := c\<rparr> # b)) = Inr (Finite v1) \<and>
      v0 < v1"
proof -
  let ?tp = "\<lambda>r. col_label r * to_float (col_predictions r > 0)"
  let ?rest = "sum_list (map ?tp a) + sum_list (map ?tp b)"
  let ?pc = "sum_list (map col_label a) + 1 + sum_list (map col_label b)"
  have "0 \<le> sum_list (map col_label a)" "0 \<le> sum_list (map col_label b)"
    using assms(4) by (auto intro: sum_list_binary_nonneg)
  then have pc: "0 < ?pc" by linarith
  have v0: "recall (map col_label (a @ r # b)) (map col_predictions (a @ r # b)) =
            Inr (Finite (?rest / ?pc))"
    unfolding recall_frame using assms(1,2) pc
    by (simp add: true_divide_def to_float_def algebra_simps)
  have v1: "recall (map col_label (a @ r\<lparr>col_predictions := c\<rparr> # b))
             (map col_predictions (a @ r\<lparr>col_predictions := c\<rparr> # b)) =
            Inr (Finite ((?rest + 1) / ?pc))"
    unfolding recall_frame using assms(2,3) pc
    by (simp add: true_divide_def to_float_def algebra_simps)
  have "?rest / ?pc < (?rest + 1) / ?pc"
    using pc by (simp add: divide_strict_right_mono)
  then show ?thesis using v0 v1 by blast
qed

text \<open>
  Claim C9. The metric functions disagree about a row \<open>r\<close> whose prediction is exactly 0.
  The fairness notebook's \<open>error_rate\<close> counts it as misclassified whatever its label:
  the rate is \<open>1 / len(df)\<close> higher than with a prediction on the label's side. Its \<open>tpr\<close>
  counts a positively-labeled such row as a true positive: the rate is the one of a
  positive prediction and strictly higher than with a negative prediction. The
  simulated-data notebook's \<open>recall\<close> leaves the row out of the true positives: the value is
  the one of a negative prediction, and (for binary labels) strictly lower than with a
  positive prediction. So one positively-labeled row with prediction 0 raises both the
  error rate and the true positive rate of the fairness notebook.
\<close>

theorem prediction_zero_at_decision_boundary:
  assumes "col_predictions r = 0" and "cn < 0" and "0 < cp"
    and "df = a @ r # b"
    and "df_neg = a @ r\<lparr>col_predictions := cn\<rparr> # b"
    and "df_pos = a @ r\<lparr>col_predictions := cp\<rparr> # b"
    and "df_right = (if col_label r > 0 then df_pos else df_neg)"
  shows
    "(\<exists>e0 e1. error_rate (map col_predictions df) (map col_label df) = Inr e0 \<and>
              error_rate (map col_predictions df_right) (map col_label df_right) = Inr e1 \<and>
              e0 = e1 + 1 / real (length df)) \<and>
     (col_label r > 0.5 \<longrightarrow>
        (\<exists>t0 t1. tpr df = Inr t0 \<and> tpr df_neg = Inr t1 \<and> t1 < t0) \<and> tpr df = tpr df_pos) \<and>
     recall (map col_label df) (map col_predictions df) =
       recall (map col_label df_neg) (map col_predictions df_neg) \<and>
     (col_label r = 1 \<and> (\<forall>x \<in> set (a @ b). col_label x = 0 \<or> col_label x = 1) \<longrightarrow>
        (\<exists>v0 v1. recall (map col_label df) (map col_predictions df) = Inr (Finite v0) \<and>
                  recall (map col_label df_pos) (map col_predictions df_pos) = Inr (Finite v1) \<and>
                  v0 < v1))"
proof -
  have side: "(col_label r > 0 \<and> (if col_label r > 0 then cp else cn) > 0) \<or>
              (col_label r \<le> 0 \<and> (if col_label r > 0 then cp else cn) < 0)"
    using assms(2,3) by auto
  have right: "df_right = a @ r\<lparr>col_predictions := (if col_label r > 0 then cp else cn)\<rparr> # b"
    using assms(5,6,7) by simp
  have err: "\<exists>e0 e1. error_rate (map col_predictions df) (map col_label df) = Inr e0 \<and>
              error_rate (map col_predictions df_right) (map col_label df_right) = Inr e1 \<and>
              e0 = e1 + 1 / real (length df)"
    unfolding right assms(4) by (rule error_rate_zero_prediction[OF assms(1) side])
  have tp: "col_label r > 0.5 \<longrightarrow>
        (\<exists>t0 t1. tpr df = Inr t0 \<and> tpr df_neg = Inr t1 \<and> t1 < t0) \<and> tpr df = tpr df_pos"
    unfolding assms(4,5,6)
    using tpr_zero_prediction[OF assms(1) _ assms(2), of a b]
      tpr_zero_prediction_positive[OF assms(1), of cp a b] assms(3)
    by simp
  have rc: "recall (map col_label df) (map col_predictions df) =
       recall (map col_label df_neg) (map col_predictions df_neg)"
    unfolding assms(4,5) using assms(2) by (intro recall_zero_prediction[OF assms(1)]) simp
  have rb: "col_label r = 1 \<and> (\<forall>x \<in> set (a @ b). col_label x = 0 \<or> col_label x = 1) \<longrightarrow>
        (\<exists>v0 v1. recall (map col_label df) (map col_predictions df) = Inr (Finite v0) \<and>
                  recall (map col_label df_pos) (map col_predictions df_pos) = Inr (Finite v1) \<and>
                  v0 < v1)"
    unfolding assms(4,6) using recall_zero_prediction_binary[OF assms(1) _ assms(3), of a b]
    by blast
  show ?thesis using err tp rc rb by blast
qed


theorem prediction_zero_at_decision_boundary_witness:
  "col_predictions \<lparr>col_predictions = 0, col_label = 1, col_protected = (\<lambda>_. 0)\<rparr> = 0 \<and>
   (- 1 :: real) < 0 \<and> (0 :: real) < 1 \<and>
   error_rate [0] [1] = Inr 1 \<and> error_rate [1] [1] = Inr 0 \<and>
   tpr [\<lparr>col_predictions = 0, col_label = 1, col_protected = (\<lambda>_. 0)\<rparr>] = Inr 1 \<and>
   tpr [\<lparr>col_predictions = - 1, col_label = 1, col_protected = (\<lambda>_. 0)\<rparr>] = Inr 0 \<and>
   recall [1] [0] = Inr (Finite 0) \<and> recall [1] [- 1] = Inr (Finite 0) \<and>
   recall [1] [1] = Inr (Finite 1)"
proof -
  let ?r = "\<lparr>col_predictions = 0, col_label = 1, col_protected = (\<lambda>_. 0)\<rparr>"
  have h1: "col_predictions ?r = 0" by simp
  have h2: "(- 1 :: real) < 0" by simp
  have h3: "(0 :: real) < 1" by simp
  note inst = prediction_zero_at_decision_boundary[where a = "[]" and b = "[]",
      OF h1 h2 h3 refl refl refl refl]
  have e1: "error_rate [1] [1] = Inr 0"
    by (simp add: error_rate_def signed_labels_of_def multiply_def to_float_def py_float_div_def)
  have t1: "tpr [\<lparr>col_predictions = - 1, col_label = 1, col_protected = (\<lambda>_. 0)\<rparr>] = Inr 0"
    by (simp add: tpr_def py_float_div_def)
  have v1: "recall [1] [1] = Inr (Finite 1)"
    by (simp add: recall_def multiply_def to_float_def true_divide_def)
  have vn: "recall [1] [- 1] = Inr (Finite 0)"
    by (simp add: recall_def multiply_def to_float_def true_divide_def)
  have e0: "error_rate [0] [1] = Inr 1"
    using inst e1 by auto
  have t0: "tpr [?r] = Inr 1"
    using inst by (simp add: tpr_def py_float_div_def)
  have v0: "recall [1] [0] = Inr (Finite 0)"
    using inst vn by simp
  show ?thesis using h1 h2 h3 e0 e1 t0 t1 v0 vn v1 by blast
qed

section \<open>Selection of the best candidate index\<close>

lemma keep_better_choice: "keep_better rank errors x best \<in> {x, best}"
  by (simp add: keep_better_def)

lemma keep_better_no_worse:
  "no_worse rank errors (keep_better rank errors x best) x"
  "no_worse rank errors (keep_better rank errors x best) best"
  by (auto simp: keep_better_def no_worse_def)

lemma no_worse_trans:
  "no_worse rank errors i j \<Longrightarrow> no_worse rank errors j k \<Longrightarrow> no_worse rank errors i k"
  by (auto simp: no_worse_def)

lemma fold_keep_better:
  "fold (keep_better rank errors) xs best \<in> insert best (set xs) \<and>
   (\<forall>j \<in> insert best (set xs). no_worse rank errors (fold (keep_better rank errors) xs best) j)"
proof (induction xs arbitrary: best)
  case Nil
  then show ?case by (simp add: no_worse_def)
next
  case (Cons x xs)
  let ?b = "keep_better rank errors x best"
  let ?r = "fold (keep_better rank errors) xs ?b"
  have IH: "?r \<in> insert ?b (set xs)" "\<forall>j \<in> insert ?b (set xs). no_worse rank errors ?r j"
    using Cons.IH[of ?b] by blast+
  have rb: "no_worse rank errors ?r ?b" using IH(2) by blast
  have rx: "no_worse rank errors ?r x"
    using no_worse_trans[OF rb keep_better_no_worse(1)] .
  have rbest: "no_worse rank errors ?r best"
    using no_worse_trans[OF rb keep_better_no_worse(2)] .
  have mem: "?r \<in> insert best (set (x # xs))"
    using IH(1) keep_better_choice[of rank errors x best] by auto
  have "\<forall>j \<in> insert best (set (x # xs)). no_worse rank errors ?r j"
    using IH(2) rx rbest by auto
  then show ?case using mem by simp
qed

lemma select_best_minimal:
  assumes "errors \<noteq> []"
  shows "select_best rank errors < length errors \<and>
         (\<forall>j < length errors. no_worse rank errors (select_best rank errors) j)"
proof -
  have set: "insert 0 (set [1..<length errors]) = {0..<length errors}"
    using assms by (cases errors) auto
  have "select_best rank errors \<in> {0..<length errors} \<and>
        (\<forall>j \<in> {0..<length errors}. no_worse rank errors (select_best rank errors) j)"
    using fold_keep_better[of rank errors "[1..<length errors]" 0]
    unfolding set select_best_def .
  then show ?thesis by simp
qed

lemma index_one_never_selected:
  assumes "rank 0 \<le> rank 1"
  shows "select_best rank [0.1, 0.2, 0.05] \<noteq> 1"
proof
  assume sel: "select_best rank [0.1, 0.2, 0.05] = 1"
  have "no_worse rank [0.1, 0.2, 0.05] (select_best rank [0.1, 0.2, 0.05]) 0"
    using select_best_minimal[of "[0.1, 0.2, 0.05]" rank] by simp
  then have "no_worse rank [0.1, 0.2, 0.05] 1 0" unfolding sel .
  then show False using assms by (simp add: no_worse_def)
qed

lemma length_filter_mono:
  "(\<And>x. x \<in> set xs \<Longrightarrow> P x \<Longrightarrow> Q x) \<Longrightarrow> length (filter P xs) \<le> length (filter Q xs)"
  by (induction xs) auto

lemma length_filter_strict:
  assumes "\<And>x. x \<in> set xs \<Longrightarrow> P x \<Longrightarrow> Q x" and "a \<in> set xs" and "Q a" and "\<not> P a"
  shows "length (filter P xs) < length (filter Q xs)"
  using assms
proof (induction xs)
  case Nil
  then show ?case by simp
next
  case (Cons x xs)
  have mono: "length (filter P xs) \<le> length (filter Q xs)"
    using Cons.prems(1) by (intro length_filter_mono) auto
  show ?case
  proof (cases "a \<in> set xs")
    case True
    then have "length (filter P xs) < length (filter Q xs)"
      using Cons by auto
    then show ?thesis using Cons.prems(1)[of x] by auto
  next
    case False
    then have "a = x" using Cons.prems(2) by simp
    then show ?thesis using Cons.prems(3,4) mono by simp
  qed
qed

lemma rank_of_less_iff:
  assumes "a \<in> set keys"
  shows "rank_of keys a < rank_of keys b \<longleftrightarrow> a < b"
proof
  assume "a < b"
  then show "rank_of keys a < rank_of keys b"
    unfolding rank_of_def using assms by (intro length_filter_strict[of keys _ _ a]) auto
next
  assume r: "rank_of keys a < rank_of keys b"
  show "a < b"
  proof (rule ccontr)
    assume "\<not> a < b"
    then have "rank_of keys b \<le> rank_of keys a"
      unfolding rank_of_def by (intro length_filter_mono) auto
    then show False using r by simp
  qed
qed

lemma fold_max_ge_acc: "(acc :: real) \<le> fold max row acc"
proof (induction row arbitrary: acc)
  case Nil
  then show ?case by simp
next
  case (Cons x xs)
  have "acc \<le> max x acc" by simp
  also have "\<dots> \<le> fold max xs (max x acc)" by (rule Cons.IH)
  finally show ?case by simp
qed

lemma fold_max_cases: "fold max row (acc :: real) = acc \<or> fold max row acc \<in> set row"
proof (induction row arbitrary: acc)
  case Nil
  then show ?case by simp
next
  case (Cons x xs)
  have "max x acc = x \<or> max x acc = acc" by (simp add: max_def)
  then show ?case using Cons.IH[of "max x acc"] by auto
qed

lemma worst_violation_nonneg: "0 \<le> worst_violation row"
  unfolding worst_violation_def by (rule fold_max_ge_acc)

lemma worst_violation_feasible:
  assumes "\<forall>v \<in> set row. v \<le> 0"
  shows "worst_violation row = 0"
proof -
  have "worst_violation row \<le> 0"
    unfolding worst_violation_def using fold_max_cases[of row 0] assms by auto
  then show ?thesis using worst_violation_nonneg[of row] by simp
qed

lemma violation_rank_feasible:
  assumes "\<forall>v \<in> set (violations ! i). v \<le> 0"
  shows "violation_rank violations i = 0"
proof -
  have "filter (\<lambda>x. x < 0) (map worst_violation violations) = []"
    by (simp add: filter_empty_conv worst_violation_nonneg not_less)
  then show ?thesis
    by (simp add: violation_rank_def rank_of_def worst_violation_feasible[OF assms])
qed


lemma fold_max_ge_elem: "v \<in> set row \<Longrightarrow> (v :: real) \<le> fold max row acc"
proof (induction row arbitrary: acc)
  case Nil
  then show ?case by simp
next
  case (Cons x xs)
  show ?case
  proof (cases "v = x")
    case True
    have "x \<le> max x acc" by simp
    also have "\<dots> \<le> fold max xs (max x acc)" by (rule fold_max_ge_acc)
    finally show ?thesis using True by simp
  next
    case False
    then have "v \<in> set xs" using Cons.prems by simp
    then show ?thesis using Cons.IH by simp
  qed
qed

lemma worst_violation_Max: "worst_violation row = Max (insert 0 (set row))"
proof (rule Max_eqI[symmetric])
  show "finite (insert 0 (set row))" by simp
  show "y \<le> worst_violation row" if "y \<in> insert 0 (set row)" for y
    using that fold_max_ge_acc[of 0 row] fold_max_ge_elem[of y row 0]
    by (auto simp: worst_violation_def)
  show "worst_violation row \<in> insert 0 (set row)"
    using fold_max_cases[of row 0] by (auto simp: worst_violation_def)
qed

lemma example_ranks:
  "combined_rank [0.1, 0.2, 0.05] [[0.0], [-0.01], [0.2]] 0 = 1"
  "combined_rank [0.1, 0.2, 0.05] [[0.0], [-0.01], [0.2]] 1 = 2"
  "combined_rank [0.1, 0.2, 0.05] [[0.0], [-0.01], [0.2]] 2 = 2"
  by (simp_all add: combined_rank_def error_rank_def violation_rank_def rank_of_def
      worst_violation_def)

lemma example_index:
  "find_best_candidate_index [0.1, 0.2, 0.05] [[0.0], [-0.01], [0.2]] = Some 0"
proof -
  let ?E = "[0.1, 0.2, 0.05] :: real list"
  let ?rank = "combined_rank ?E [[0.0], [-0.01], [0.2]]"
  have upt: "[1..<length ?E] = [1, 2]"
    by (simp add: upt_conv_Cons)
  have unroll: "fold f [1, 2] (0::nat) = f 2 (f 1 0)" for f :: "nat \<Rightarrow> nat \<Rightarrow> nat"
    by simp
  have k1: "keep_better ?rank ?E 1 0 = 0"
    unfolding keep_better_def example_ranks by simp
  have k2: "keep_better ?rank ?E 2 0 = 0"
    unfolding keep_better_def example_ranks by simp
  have "select_best ?rank ?E = 0"
    unfolding select_best_def upt unroll k1 k2 ..
  then show ?thesis
    unfolding find_best_candidate_index_def by simp
qed

text \<open>
  Claim C1, as the claim states it, fails on its own example. For errors
  \<open>[0.1, 0.2, 0.05]\<close> and violations \<open>[[0.0], [-0.01], [0.2]]\<close> the combined ranks are
  1, 2 and 2: index 1 has the largest error and so the largest error rank, index 2 has
  the only positive violation. The index of minimal combined rank is 0, not 1.
\<close>

theorem find_best_candidate_index_example_returns_zero:
  "find_best_candidate_index [0.1, 0.2, 0.05] [[0.0], [-0.01], [0.2]] = Some 0 \<and>
   find_best_candidate_index [0.1, 0.2, 0.05] [[0.0], [-0.01], [0.2]] \<noteq> Some 1"
  unfolding example_index by simp

text \<open>
  Claim C1, amended. For every non-empty sequence of snapshots, given as an errors vector
  and a violations matrix with one row per snapshot, \<open>find_best_candidate_index\<close> returns
  an index of minimal combined rank \<open>max(error_rank, violation_rank)\<close>, and among the
  indices of that rank one of lowest error. The error rank orders the snapshots by error,
  the violation rank by worst-case violation, the largest entry of the violation row or
  0 when no entry is positive, so that every snapshot whose constraints are all \<open>\<le> 0\<close>
  has the best violation rank 0. For errors \<open>[0.1, 0.2, 0.05]\<close> and violations
  \<open>[[0.0], [-0.01], [0.2]]\<close> the returned index is 0.
\<close>

theorem find_best_candidate_index_minimises_combined_rank:
  assumes "errors \<noteq> []" and "length errors = length violations"
  shows "(\<exists>i < length errors.
            find_best_candidate_index errors violations = Some i \<and>
            (\<forall>j < length errors.
               combined_rank errors violations i \<le> combined_rank errors violations j \<and>
               (combined_rank errors violations j = combined_rank errors violations i
                  \<longrightarrow> errors ! i \<le> errors ! j))) \<and>
         (\<forall>j < length errors. \<forall>k < length errors.
            combined_rank errors violations j =
              max (error_rank errors j) (violation_rank violations j) \<and>
            (error_rank errors j < error_rank errors k \<longleftrightarrow> errors ! j < errors ! k) \<and>
            (violation_rank violations j < violation_rank violations k \<longleftrightarrow>
               worst_violation (violations ! j) < worst_violation (violations ! k)) \<and>
            worst_violation (violations ! j) = Max (insert 0 (set (violations ! j))) \<and>
            ((\<forall>v \<in> set (violations ! j). v \<le> 0) \<longrightarrow> violation_rank violations j = 0)) \<and>
         find_best_candidate_index [0.1, 0.2, 0.05] [[0.0], [-0.01], [0.2]] = Some 0"
proof -
  let ?i = "select_best (combined_rank errors violations) errors"
  have res: "find_best_candidate_index errors violations = Some ?i"
    using assms by (simp add: find_best_candidate_index_def)
  have sel: "?i < length errors"
    "\<forall>j < length errors. no_worse (combined_rank errors violations) errors ?i j"
    using select_best_minimal[OF assms(1), of "combined_rank errors violations"] by blast+
  have best: "\<forall>j < length errors.
               combined_rank errors violations ?i \<le> combined_rank errors violations j \<and>
               (combined_rank errors violations j = combined_rank errors violations ?i
                  \<longrightarrow> errors ! ?i \<le> errors ! j)"
    using sel(2) by (auto simp: no_worse_def)
  have first: "\<exists>i < length errors.
            find_best_candidate_index errors violations = Some i \<and>
            (\<forall>j < length errors.
               combined_rank errors violations i \<le> combined_rank errors violations j \<and>
               (combined_rank errors violations j = combined_rank errors violations i
                  \<longrightarrow> errors ! i \<le> errors ! j))"
    using res sel(1) best by blast
  have er: "error_rank errors j < error_rank errors k \<longleftrightarrow> errors ! j < errors ! k"
    if "j < length errors" for j k
    unfolding error_rank_def using that by (intro rank_of_less_iff) simp
  have vr: "violation_rank violations j < violation_rank violations k \<longleftrightarrow>
               worst_violation (violations ! j) < worst_violation (violations ! k)"
    if "j < length errors" for j k
    unfolding violation_rank_def using that assms(2) by (intro rank_of_less_iff) simp
  have second: "\<forall>j < length errors. \<forall>k < length errors.
            combined_rank errors violations j =
              max (error_rank errors j) (violation_rank violations j) \<and>
            (error_rank errors j < error_rank errors k \<longleftrightarrow> errors ! j < errors ! k) \<and>
            (violation_rank violations j < violation_rank violations k \<longleftrightarrow>
               worst_violation (violations ! j) < worst_violation (violations ! k)) \<and>
            worst_violation (violations ! j) = Max (insert 0 (set (violations ! j))) \<and>
            ((\<forall>v \<in> set (violations ! j). v \<le> 0) \<longrightarrow> violation_rank violations j = 0)"
    using er vr worst_violation_Max violation_rank_feasible
    by (simp add: combined_rank_def)
  show ?thesis using first second example_index by blast
qed

theorem find_best_candidate_index_minimises_combined_rank_witness:
  "[0.1, 0.2, 0.05 :: real] \<noteq> [] \<and>
   length [0.1, 0.2, 0.05 :: real] = length [[0.0], [-0.01], [0.2 :: real]] \<and>
   find_best_candidate_index [0.1, 0.2, 0.05] [[0.0], [-0.01], [0.2]] = Some 0 \<and>
   combined_rank [0.1, 0.2, 0.05] [[0.0], [-0.01], [0.2]] 0 = 1 \<and>
   combined_rank [0.1, 0.2, 0.05] [[0.0], [-0.01], [0.2]] 1 = 2 \<and>
   combined_rank [0.1, 0.2, 0.05] [[0.0], [-0.01], [0.2]] 2 = 2 \<and>
   violation_rank [[0.0], [-0.01], [0.2]] 1 = 0"
proof -
  have h1: "[0.1, 0.2, 0.05 :: real] \<noteq> []" by simp
  have h2: "length [0.1, 0.2, 0.05 :: real] = length [[0.0], [-0.01], [0.2 :: real]]" by simp
  note inst = find_best_candidate_index_minimises_combined_rank[OF h1 h2]
  have idx: "find_best_candidate_index [0.1, 0.2, 0.05] [[0.0], [-0.01], [0.2]] = Some 0"
    using inst by blast
  have "\<forall>j < length [0.1, 0.2, 0.05 :: real].
          (\<forall>v \<in> set ([[0.0], [-0.01], [0.2 :: real]] ! j). v \<le> 0) \<longrightarrow>
          violation_rank [[0.0], [-0.01], [0.2]] j = 0"
    using inst by blast
  then have feasible: "violation_rank [[0.0], [-0.01], [0.2]] 1 = 0"
    by simp
  show ?thesis using h1 h2 idx feasible example_ranks by blast
qed

section \<open>The best candidate distribution and the uniform average\<close>

subsection \<open>Expected error and violations as sums over the snapshots\<close>

lemma get_exp_Inr:
  assumes "get_exp_error_rate_constraints d errors violations = Inr (e, cs)"
  shows "length d = length errors" "length d = length violations"
    "list_all (\<lambda>r. length r = num_columns violations) violations"
    "e = sum_list (map2 (*) d errors)"
    "cs = map (\<lambda>j. sum_list (map2 (\<lambda>p r. p * r ! j) d violations)) [0..<num_columns violations]"
  using assms
  by (auto simp: get_exp_error_rate_constraints_def dot_def matmul_def
      split: if_splits sum.splits)


lemma feasible_in_expectation_Inr:
  "feasible_in_expectation d errors violations \<longleftrightarrow>
     (\<exists>e cs. get_exp_error_rate_constraints d errors violations = Inr (e, cs) \<and>
             (\<forall>c \<in> set cs. c \<le> 0))"
  by (auto simp: feasible_in_expectation_def list_all_iff split: sum.splits)









subsection \<open>The uniform distribution\<close>







subsection \<open>A feasible distribution of least expected error exists\<close>






subsection \<open>Every sequence of snapshots has a best candidate distribution\<close>


lemma best_candidate_distributionI:
  assumes "candidate_distribution d" "feasible_in_expectation d errors violations"
    and "\<And>other. candidate_distribution other \<Longrightarrow>
           feasible_in_expectation other errors violations \<Longrightarrow>
           sum_list (map2 (*) d errors) \<le> sum_list (map2 (*) other errors)"
  shows "best_candidate_distribution errors violations d"
proof -
  obtain e cs where "get_exp_error_rate_constraints d errors violations = Inr (e, cs)"
    using assms(2) unfolding feasible_in_expectation_Inr by blast
  then have "length d = length errors" by (rule get_exp_Inr(1))
  then show ?thesis
    unfolding best_candidate_distribution_def using assms by blast
qed


lemma no_distribution_over_no_snapshots:
  "\<not> best_candidate_distribution [] violations d"
  by (simp add: best_candidate_distribution_def candidate_distribution_def)

subsection \<open>Three sequences of two snapshots\<close>

lemma two_snapshots:
  assumes "get_exp_error_rate_constraints d [e0, e1] [[v0], [v1]] = Inr (e, cs)"
  shows "\<exists>p0 p1. d = [p0, p1] \<and> e = p0 * e0 + p1 * e1 \<and> cs = [p0 * v0 + p1 * v1]"
proof -
  have "length d = 2" using get_exp_Inr(1)[OF assms] by simp
  then obtain p0 p1 where d: "d = [p0, p1]"
    by (cases d; cases "tl d") auto
  have "e = p0 * e0 + p1 * e1" "cs = [p0 * v0 + p1 * v1]"
    using get_exp_Inr(4,5)[OF assms] unfolding d by (simp_all add: num_columns_def)
  then show ?thesis using d by blast
qed








text \<open>
  For errors \<open>[0, 1]\<close> and violations \<open>[[1], [2]]\<close> no probability vector is feasible in
  expectation: both snapshots violate the constraint. The first snapshot alone, the one
  that violates it least, is among the distributions that the model admits.
\<close>

lemma no_feasible_third_example:
  "\<not> (candidate_distribution other \<and> feasible_in_expectation other [0, 1] [[1], [2]])"
proof
  assume a: "candidate_distribution other \<and> feasible_in_expectation other [0, 1] [[1], [2]]"
  then obtain e cs where run: "get_exp_error_rate_constraints other [0, 1] [[1], [2]] = Inr (e, cs)"
    and feas: "\<forall>c \<in> set cs. c \<le> 0"
    unfolding feasible_in_expectation_Inr by blast
  obtain p0 p1 where d: "other = [p0, p1]" and cs: "cs = [p0 * 1 + p1 * 2]"
    using two_snapshots[OF run] by blast
  have "p0 + p1 = 1" "0 \<le> p0" "0 \<le> p1"
    using a d by (simp_all add: candidate_distribution_def)
  moreover have "p0 + p1 * 2 \<le> 0" using feas cs by simp
  ultimately show False by simp
qed

lemma best_without_feasible_snapshots:
  "best_candidate_distribution [0, 1] [[1], [2]] [1, 0]"
  unfolding best_candidate_distribution_def
  using no_feasible_third_example by (simp add: candidate_distribution_def)

subsection \<open>Dominance over the uniform average\<close>




section \<open>The support of a best candidate distribution\<close>

text \<open>
  Feasibility in expectation and minimal expected error do not fix how many snapshots
  carry weight. With three equal snapshots and one constraint every probability vector
  is a best distribution: one snapshot alone is, and so is the uniform vector with
  three nonzero entries. Which of them is returned is up to the procedure.
\<close>

lemma sum_list_map2_zero:
  "(\<forall>z \<in> set zs. z = (0 :: real)) \<Longrightarrow> sum_list (map2 (*) xs zs) = 0"
  by (induction xs zs rule: list_induct2') auto

lemma best_of_equal_snapshots:
  assumes "candidate_distribution cand_dist" and "length cand_dist = 3"
  shows "best_candidate_distribution [0, 0, 0] [[0], [0], [0]] cand_dist"
proof (rule best_candidate_distributionI)
  obtain a b c where d: "cand_dist = [a, b, c]"
    using assms(2) by (cases cand_dist; cases "tl cand_dist"; cases "tl (tl cand_dist)") auto
  have "get_exp_error_rate_constraints cand_dist [0, 0, 0] [[0], [0], [0]] = Inr (0, [0])"
    unfolding d
    by (simp add: get_exp_error_rate_constraints_def dot_def matmul_def num_columns_def)
  then show "feasible_in_expectation cand_dist [0, 0, 0] [[0], [0], [0]]"
    by (simp add: feasible_in_expectation_def)
  show "candidate_distribution cand_dist" by (rule assms(1))
  show "sum_list (map2 (*) cand_dist [0, 0, 0]) \<le> sum_list (map2 (*) other [0, 0, 0])"
    for other :: "real list"
    by (simp add: sum_list_map2_zero)
qed

lemma support_not_determined:
  "best_candidate_distribution [0, 0, 0] [[0], [0], [0]] [1, 0, 0] \<and>
   length (filter (\<lambda>p. p \<noteq> 0) [1, 0, 0 :: real]) = 1 \<and>
   best_candidate_distribution [0, 0, 0] [[0], [0], [0]] [1 / 3, 1 / 3, 1 / 3] \<and>
   length (filter (\<lambda>p. p \<noteq> 0) [1 / 3, 1 / 3, 1 / 3 :: real]) = 3 \<and>
   num_columns [[0], [0], [0]] + 1 = 2"
proof -
  have "best_candidate_distribution [0, 0, 0] [[0], [0], [0]] [1, 0, 0]"
    by (rule best_of_equal_snapshots) (simp_all add: candidate_distribution_def)
  moreover have "best_candidate_distribution [0, 0, 0] [[0], [0], [0]] [1 / 3, 1 / 3, 1 / 3]"
    by (rule best_of_equal_snapshots) (simp_all add: candidate_distribution_def)
  ultimately show ?thesis by (simp add: num_columns_def)
qed

section \<open>The two constraint values of \<open>ExampleProblem\<close>\<close>

text \<open>
  \<open>ExampleProblem.constraints\<close> and \<open>ExampleProblem.proxy_constraints\<close> describe the same
  single recall constraint: each returns one value, and they raise on the same shapes of
  labels and predictions.
\<close>

lemma multiply_shape:
  "(\<exists>zs. multiply xs (map f ys) = Inr zs) \<longleftrightarrow> (\<exists>zs. multiply xs (map g ys) = Inr zs)"
  by (simp add: multiply_def)

lemma example_problem_one_value_each:
  "(\<exists>v. constraints self = Inr v) \<longleftrightarrow> (\<exists>w. proxy_constraints self = Inr w)"
  using multiply_shape[of "ep_labels self" "\<lambda>p. to_float (p > 0)" "ep_predictions self"
      "\<lambda>p. min 1.0 p"]
  by (auto simp: constraints_def proxy_constraints_def split: sum.splits)

end
